theory Spec2Isabelle
  imports Main
begin

section \<open>Python values, exceptions and the job descriptor\<close>

text \<open>
  The worker of \<^verbatim>\<open>kq/worker.py\<close> handles Python objects it does not look into.
  The model keeps what the worker's tests on them can see: whether a value is
  \<^verbatim>\<open>None\<close>, what it compares equal to, whether it is iterable, a mapping or
  callable.
\<close>

datatype pyval =
    PNone
  | PBool bool
  | PInt int
  | PStr string
  | PList "pyval list"
  | PDict "(pyval \<times> pyval) list"
  | PFunc string

text \<open>
  \<^verbatim>\<open>v == n\<close> for an integer literal \<^verbatim>\<open>n\<close>: Python's \<^verbatim>\<open>bool\<close> is a subclass of
  \<^verbatim>\<open>int\<close>, so \<^verbatim>\<open>False == 0\<close> and \<^verbatim>\<open>True == 1\<close> hold; no other value of the model is
  equal to an integer.
\<close>

fun py_eq_int :: "pyval \<Rightarrow> int \<Rightarrow> bool" where
  "py_eq_int (PInt i) n = (i = n)"
| "py_eq_int (PBool b) n = ((if b then 1 else 0) = n)"
| "py_eq_int v n = False"

text \<open>\<^verbatim>\<open>isinstance(v, collections.Iterable)\<close>, \<^verbatim>\<open>isinstance(v, collections.Mapping)\<close>, \<^verbatim>\<open>callable(v)\<close>.\<close>

fun is_iterable :: "pyval \<Rightarrow> bool" where
  "is_iterable (PStr s) = True"
| "is_iterable (PList xs) = True"
| "is_iterable (PDict kvs) = True"
| "is_iterable v = False"

fun is_mapping :: "pyval \<Rightarrow> bool" where
  "is_mapping (PDict kvs) = True"
| "is_mapping v = False"

fun callable :: "pyval \<Rightarrow> bool" where
  "callable (PFunc f) = True"
| "callable v = False"

text \<open>
  The exceptions the worker tells apart. \<^verbatim>\<open>mp.TimeoutError\<close>, \<^verbatim>\<open>KafkaError\<close> (with its
  \<^verbatim>\<open>message\<close> attribute when it has one) and \<^verbatim>\<open>AttributeError\<close> are subclasses of
  \<^verbatim>\<open>Exception\<close>; \<^verbatim>\<open>KeyboardInterrupt\<close> and the other direct subclasses of
  \<^verbatim>\<open>BaseException\<close> are not.
\<close>

datatype exc =
    MpTimeoutError
  | KafkaError "string option"
  | AttributeError
  | OtherException string
  | KeyboardInterrupt
  | OtherBaseException string

fun is_Exception :: "exc \<Rightarrow> bool" where
  "is_Exception KeyboardInterrupt = False"
| "is_Exception (OtherBaseException n) = False"
| "is_Exception e = True"

text \<open>
  Modelled from the spec: the namedtuple \<^verbatim>\<open>kq.job.Job\<close> is imported by the worker and
  not defined in it. The fields are those of the specification's data model: \<^verbatim>\<open>id\<close>,
  \<^verbatim>\<open>func\<close>, \<^verbatim>\<open>args\<close>, \<^verbatim>\<open>kwargs\<close>, \<^verbatim>\<open>timeout\<close> (optional seconds) and \<^verbatim>\<open>key\<close>.
\<close>

record job =
  job_id :: string
  job_func :: pyval
  job_args :: pyval
  job_kwargs :: pyval
  job_timeout :: "int option"
  job_key :: pyval

text \<open>
  What \<^verbatim>\<open>dill.loads\<close> returns: a \<^verbatim>\<open>Job\<close>, or an object of another class, of which
  the worker can only read the attribute \<^verbatim>\<open>key\<close> (present or not).
\<close>

datatype pyobj = JobObj job | OtherObj "pyval option"

fun obj_key :: "pyobj \<Rightarrow> pyval option" where
  "obj_key (JobObj j) = Some (job_key j)"
| "obj_key (OtherObj k) = k"

text \<open>The broker's \<^verbatim>\<open>ConsumerRecord\<close>; the payload bytes are a \<^typ>\<open>string\<close>.\<close>

record krecord =
  rec_topic :: string
  rec_partition :: nat
  rec_offset :: nat
  rec_key :: pyval
  rec_value :: string

section \<open>The worker, its environment and the observable trace\<close>

text \<open>The six arguments of the callback, in the order of the call.\<close>

record cb_args =
  cb_status :: string
  cb_job :: job
  cb_result :: pyval
  cb_exception :: "exc option"
  cb_traceback :: "string option"
  cb_try_count :: nat

datatype cb_reply = CbReturns pyval | CbRaises exc

text \<open>
  The fields of \<^verbatim>\<open>self\<close> that \<^verbatim>\<open>__init__\<close> sets and no method changes. The callback
  takes, before its arguments, the number of times it was called before, so that it may
  answer differently from one call to the next.
\<close>

record worker =
  w_hosts :: string
  w_topic :: string
  w_timeout :: "int option"
  w_connect_timeout :: int
  w_callback :: "(nat \<Rightarrow> cb_args \<Rightarrow> cb_reply) option"
  w_job_size :: int
  w_cafile :: "string option"
  w_certfile :: "string option"
  w_keyfile :: "string option"
  w_crlfile :: "string option"

text \<open>
  How the job's callable is run: in the worker's own thread, or through
  \<^verbatim>\<open>self._pool.apply_async\<close> on a pool of the given number of processes, awaited
  with \<^verbatim>\<open>run.get(timeout)\<close>.
\<close>

datatype exec_mode = Inline | Pooled nat int

text \<open>
  Modelled from the spec: the class \<^verbatim>\<open>kq.Queue\<close> is imported by the worker and not
  defined in it. By the specification the forwarder "builds a producer" with the queue
  ("per-failure producer construction"), so every \<^verbatim>\<open>Queue\<close> object has a producer of
  its own, reached as \<^verbatim>\<open>q.producer\<close>. The record below holds the keyword arguments of
  \<^verbatim>\<open>Queue(...)\<close> in \<^verbatim>\<open>_fail_record\<close>.
\<close>

record queue_cfg =
  q_hosts :: string
  q_topic :: string
  q_timeout :: int
  q_acks :: int
  q_retries :: int
  q_job_size :: int
  q_cafile :: "string option"
  q_certfile :: "string option"
  q_keyfile :: "string option"
  q_crlfile :: "string option"

text \<open>
  Everything the worker does to the outside, in the order it does it. \<open>QueueBuilt n c\<close>
  is the \<open>n\<close>-th \<^verbatim>\<open>Queue\<close> object constructed; \<open>Sent n t v k\<close> is
  \<^verbatim>\<open>q.producer.send(t, v, key=k)\<close> on the producer of the \<open>n\<close>-th queue;
  \<open>Committed r\<close> is \<^verbatim>\<open>self._consumer.commit()\<close> while \<open>r\<close> is the current record.
\<close>

datatype event =
    PoolCreated nat
  | Attempt krecord nat
  | Executed job exec_mode
  | CallbackCalled cb_args
  | QueueBuilt nat queue_cfg
  | Sent nat string string pyval
  | Committed krecord
  | PoolTerminated

record world =
  trace :: "event list"
  pool :: "nat option"

definition emit :: "event \<Rightarrow> world \<Rightarrow> world" where
  "emit e s = s\<lparr>trace := trace s @ [e]\<rparr>"

fun is_callback_event :: "event \<Rightarrow> bool" where
  "is_callback_event (CallbackCalled a) = True"
| "is_callback_event e = False"

fun is_executed_event :: "event \<Rightarrow> bool" where
  "is_executed_event (Executed j m) = True"
| "is_executed_event e = False"

fun is_queue_event :: "event \<Rightarrow> bool" where
  "is_queue_event (QueueBuilt n c) = True"
| "is_queue_event e = False"

definition callbacks_so_far :: "world \<Rightarrow> nat" where
  "callbacks_so_far s = length (filter is_callback_event (trace s))"

definition executions_so_far :: "world \<Rightarrow> nat" where
  "executions_so_far s = length (filter is_executed_event (trace s))"

definition queues_so_far :: "world \<Rightarrow> nat" where
  "queues_so_far s = length (filter is_queue_event (trace s))"

text \<open>
  What one run of the job's callable does: it returns or raises after some seconds
  (counted from the moment the worker asks for it, so a wait for the pool's only
  process is part of them), or it never finishes.
\<close>

datatype behaviour = Finishes nat "exc + pyval" | Hangs

text \<open>
  What the broker does with one forwarded record: the \<^verbatim>\<open>send\<close> raises, or the
  future is acknowledged after some seconds, or \<^verbatim>\<open>future.get\<close> raises.
\<close>

datatype delivery = SendRaises exc | AckAfter nat | GetRaises exc

text \<open>
  The code the worker calls and does not define. \<open>run_func n j\<close> is the \<open>n\<close>-th run of
  a callable in this worker; \<open>queue_ctor n\<close> and \<open>broker n\<close> are about the \<open>n\<close>-th
  queue; \<open>kafka_timeout\<close> is the exception of a \<^verbatim>\<open>future.get\<close> that waited in vain.

  The worker builds its log messages from objects of the job, and building one can
  raise: \<open>func_repr f a k\<close> is what \<^verbatim>\<open>func_repr(func, args, kwargs)\<close> of \<^verbatim>\<open>kq.utils\<close>
  raises, if anything (it is imported by the worker and not defined in it);
  \<open>format_value v\<close> and \<open>format_error e\<close> are what \<^verbatim>\<open>'{}'.format\<close> raises on the
  result of a callable and on an exception. \<open>None\<close> is a message built.
\<close>

record env =
  dill_loads :: "string \<Rightarrow> exc + pyobj"
  run_func :: "nat \<Rightarrow> job \<Rightarrow> behaviour"
  func_repr :: "pyval \<Rightarrow> pyval \<Rightarrow> pyval \<Rightarrow> exc option"
  format_value :: "pyval \<Rightarrow> exc option"
  format_error :: "exc \<Rightarrow> exc option"
  format_exc :: "exc \<Rightarrow> string"
  queue_ctor :: "nat \<Rightarrow> exc option"
  broker :: "nat \<Rightarrow> delivery"
  kafka_timeout :: exc

text \<open>A call returns a value or raises, in both cases with the world it leaves.\<close>

datatype 'a outcome = Returns 'a world | Raises exc world

section \<open>The methods of the worker\<close>

text \<open>
  A call of the logger is modelled where building its message can raise: the messages
  made of \<^verbatim>\<open>func_repr(func, args, kwargs)\<close>, of the result of the callable and of a
  caught exception. The other messages are made of the record's topic, partition and
  offset (\<^verbatim>\<open>rec_repr\<close>), of the job's id and of its timeout, which are strings and
  numbers; they are built without more ado and left out.
\<close>

text \<open>
  \<^verbatim>\<open>_exec_callback\<close>: \<^verbatim>\<open>resp\<close> is \<^verbatim>\<open>None\<close> without a callback and after
  \<^verbatim>\<open>except Exception\<close>; \<^verbatim>\<open>None\<close> becomes \<^verbatim>\<open>1\<close>. The handler formats the
  exception for its log line; what that raises, and what \<^verbatim>\<open>except Exception\<close> does
  not catch, leaves the method.
\<close>

definition exec_callback :: "worker \<Rightarrow> env \<Rightarrow> cb_args \<Rightarrow> world \<Rightarrow> pyval outcome" where
  "exec_callback w ev a s =
     (case w_callback w of
        None \<Rightarrow> Returns (PInt 1) s
      | Some cb \<Rightarrow>
          (case cb (callbacks_so_far s) a of
             CbReturns v \<Rightarrow>
               Returns (if v = PNone then PInt 1 else v) (emit (CallbackCalled a) s)
           | CbRaises e \<Rightarrow>
               if is_Exception e then
                 (case format_error ev e of
                    None \<Rightarrow> Returns (PInt 1) (emit (CallbackCalled a) s)
                  | Some e' \<Rightarrow> Raises e' (emit (CallbackCalled a) s))
               else Raises e (emit (CallbackCalled a) s)))"

text \<open>\<^verbatim>\<open>a or b\<close> on optional integers: \<^verbatim>\<open>None\<close> and \<^verbatim>\<open>0\<close> are false.\<close>

fun py_or :: "int option \<Rightarrow> int option \<Rightarrow> int option" where
  "py_or None b = b"
| "py_or (Some t) b = (if t = 0 then b else Some t)"

text \<open>\<^verbatim>\<open>timeout = self._timeout or job.timeout\<close>\<close>

definition effective_timeout :: "worker \<Rightarrow> job \<Rightarrow> int option" where
  "effective_timeout w j = py_or (w_timeout w) (job_timeout j)"

text \<open>
  The body of the inner \<^verbatim>\<open>try\<close> of \<^verbatim>\<open>_consume_record\<close>: the call of the callable.
  \<open>None\<close> is a call that never returns. Without a pool (\<^verbatim>\<open>start\<close> not yet called)
  \<^verbatim>\<open>self._pool.apply_async\<close> raises \<^verbatim>\<open>AttributeError\<close>.
\<close>

definition run_job :: "worker \<Rightarrow> env \<Rightarrow> job \<Rightarrow> world \<Rightarrow> ((exc + pyval) \<times> world) option" where
  "run_job w ev j s =
     (case effective_timeout w j of
        None \<Rightarrow>
          (case run_func ev (executions_so_far s) j of
             Hangs \<Rightarrow> None
           | Finishes d r \<Rightarrow> Some (r, emit (Executed j Inline) s))
      | Some t \<Rightarrow>
          (case pool s of
             None \<Rightarrow> Some (Inl AttributeError, s)
           | Some p \<Rightarrow>
               (case run_func ev (executions_so_far s) j of
                  Hangs \<Rightarrow> Some (Inl MpTimeoutError, emit (Executed j (Pooled p t)) s)
                | Finishes d r \<Rightarrow>
                    if int d \<le> t then Some (r, emit (Executed j (Pooled p t)) s)
                    else Some (Inl MpTimeoutError, emit (Executed j (Pooled p t)) s))))"

text \<open>The validity check of \<^verbatim>\<open>_consume_record\<close> on what \<^verbatim>\<open>dill.loads\<close> returned.\<close>

fun valid_job :: "pyobj \<Rightarrow> bool" where
  "valid_job (JobObj j) =
     (is_iterable (job_args j) \<and> is_mapping (job_kwargs j) \<and> callable (job_func j))"
| "valid_job (OtherObj k) = False"

fun the_job :: "pyobj \<Rightarrow> job option" where
  "the_job (JobObj j) = Some j"
| "the_job (OtherObj k) = None"

text \<open>
  \<^verbatim>\<open>_consume_record\<close>. The bare \<^verbatim>\<open>except\<close> around \<^verbatim>\<open>dill.loads\<close> catches everything.
  The message with \<^verbatim>\<open>func_repr(func, args, kwargs)\<close> is built after the validity
  check and outside the inner \<^verbatim>\<open>try\<close>: what it raises leaves the method. Around the
  call, \<^verbatim>\<open>mp.TimeoutError\<close> is tried first, then \<^verbatim>\<open>Exception\<close>, and what is neither
  leaves the method. The handler of \<^verbatim>\<open>Exception\<close> and the \<^verbatim>\<open>else\<close> branch build
  their message, of the exception and of the result, before they call the callback;
  what that raises leaves the method too.
\<close>

definition consume_record ::
  "worker \<Rightarrow> env \<Rightarrow> krecord \<Rightarrow> nat \<Rightarrow> world \<Rightarrow> pyval outcome option" where
  "consume_record w ev r try_count s =
     (let s0 = emit (Attempt r try_count) s in
      case dill_loads ev (rec_value r) of
        Inl e \<Rightarrow> Some (Returns (PInt (- 1)) s0)
      | Inr obj \<Rightarrow>
          (case (if valid_job obj then the_job obj else None) of
             None \<Rightarrow> Some (Returns (PInt (- 1)) s0)
           | Some j \<Rightarrow>
               (case func_repr ev (job_func j) (job_args j) (job_kwargs j) of
                  Some e \<Rightarrow> Some (Raises e s0)
                | None \<Rightarrow>
                    (case run_job w ev j s0 of
                       None \<Rightarrow> None
                     | Some (Inl e, s1) \<Rightarrow>
                         if e = MpTimeoutError then
                           Some (exec_callback w ev
                             \<lparr>cb_status = ''timeout'', cb_job = j, cb_result = PNone,
                              cb_exception = None, cb_traceback = None,
                              cb_try_count = try_count\<rparr> s1)
                         else if is_Exception e then
                           (case format_error ev e of
                              Some e' \<Rightarrow> Some (Raises e' s1)
                            | None \<Rightarrow>
                                Some (exec_callback w ev
                                  \<lparr>cb_status = ''failure'', cb_job = j, cb_result = PNone,
                                   cb_exception = Some e,
                                   cb_traceback = Some (format_exc ev e),
                                   cb_try_count = try_count\<rparr> s1))
                         else Some (Raises e s1)
                     | Some (Inr v, s1) \<Rightarrow>
                         (case format_value ev v of
                            Some e' \<Rightarrow> Some (Raises e' s1)
                          | None \<Rightarrow>
                              Some (exec_callback w ev
                                \<lparr>cb_status = ''success'', cb_job = j, cb_result = v,
                                 cb_exception = None, cb_traceback = None,
                                 cb_try_count = try_count\<rparr> s1))))))"

text \<open>\<^verbatim>\<open>_get_fail_topic\<close>\<close>

definition get_fail_topic :: "worker \<Rightarrow> string" where
  "get_fail_topic w = w_topic w @ ''.failed''"

text \<open>\<^verbatim>\<open>self._timeout or 5\<close>, the seconds \<^verbatim>\<open>_fail_record\<close> waits for the acknowledgment.\<close>

definition ack_timeout :: "worker \<Rightarrow> int" where
  "ack_timeout w = (case py_or (w_timeout w) (Some 5) of None \<Rightarrow> 5 | Some t \<Rightarrow> t)"

definition fail_queue_cfg :: "worker \<Rightarrow> queue_cfg" where
  "fail_queue_cfg w =
     \<lparr>q_hosts = w_hosts w, q_topic = get_fail_topic w, q_timeout = w_connect_timeout w,
      q_acks = - 1, q_retries = 5, q_job_size = w_job_size w, q_cafile = w_cafile w,
      q_certfile = w_certfile w, q_keyfile = w_keyfile w, q_crlfile = w_crlfile w\<rparr>"

text \<open>
  \<^verbatim>\<open>key = dill.loads(record.value).key\<close> under a bare \<^verbatim>\<open>except\<close>: a payload that does
  not load, or an object without the attribute, gives \<^verbatim>\<open>None\<close>.
\<close>

definition recover_key :: "env \<Rightarrow> krecord \<Rightarrow> pyval" where
  "recover_key ev r =
     (case dill_loads ev (rec_value r) of
        Inl e \<Rightarrow> PNone
      | Inr obj \<Rightarrow> (case obj_key obj of None \<Rightarrow> PNone | Some k \<Rightarrow> k))"

text \<open>
  The handler \<^verbatim>\<open>except KafkaError as e\<close> of \<^verbatim>\<open>_fail_record\<close>: it reads \<^verbatim>\<open>e.message\<close>
  for the log line, which raises \<^verbatim>\<open>AttributeError\<close> where the exception has no such
  attribute, and returns \<^verbatim>\<open>False\<close>. Any other exception leaves the method.
\<close>

fun get_failed :: "exc \<Rightarrow> world \<Rightarrow> bool outcome" where
  "get_failed (KafkaError None) s = Raises AttributeError s"
| "get_failed (KafkaError (Some m)) s = Returns False s"
| "get_failed e s = Raises e s"

text \<open>
  \<^verbatim>\<open>_fail_record\<close>: a new \<^verbatim>\<open>Queue\<close> on every call, the key read from the payload, the
  payload sent as it is, and the wait for the acknowledgment.
\<close>

definition fail_record :: "worker \<Rightarrow> env \<Rightarrow> krecord \<Rightarrow> world \<Rightarrow> bool outcome" where
  "fail_record w ev r s =
     (let fail_topic = get_fail_topic w; n = queues_so_far s in
      case queue_ctor ev n of
        Some e \<Rightarrow> Raises e s
      | None \<Rightarrow>
          (let s1 = emit (QueueBuilt n (fail_queue_cfg w)) s;
               key = recover_key ev r;
               s2 = emit (Sent n fail_topic (rec_value r) key) s1 in
           case broker ev n of
             SendRaises e \<Rightarrow> Raises e s1
           | AckAfter d \<Rightarrow>
               if int d \<le> ack_timeout w then Returns True s2
               else get_failed (kafka_timeout ev) s2
           | GetRaises e \<Rightarrow> get_failed e s2))"

section \<open>The consumption loop\<close>

text \<open>
  The inner \<^verbatim>\<open>while commit_control == 0\<close> of \<^verbatim>\<open>start\<close>, entered with the current
  \<^verbatim>\<open>commit_control\<close> and \<^verbatim>\<open>try_count\<close>. It returns both as the loop leaves them.
  \<open>None\<close> is a loop, or a call inside it, that never returns.
\<close>

partial_function (option) attempt_loop ::
  "worker \<Rightarrow> env \<Rightarrow> krecord \<Rightarrow> pyval \<Rightarrow> nat \<Rightarrow> world \<Rightarrow> (pyval \<times> nat) outcome option" where
  "attempt_loop w ev r commit_control try_count s =
     (if py_eq_int commit_control 0 then
        (case consume_record w ev r try_count s of
           None \<Rightarrow> None
         | Some (Raises e s') \<Rightarrow> Some (Raises e s')
         | Some (Returns c s') \<Rightarrow> attempt_loop w ev r c (try_count + 1) s')
      else Some (Returns (commit_control, try_count) s))"

text \<open>The \<^verbatim>\<open>if commit_control == -1\<close> after the loop.\<close>

definition commit_or_fail :: "worker \<Rightarrow> env \<Rightarrow> krecord \<Rightarrow> pyval \<Rightarrow> world \<Rightarrow> unit outcome" where
  "commit_or_fail w ev r commit_control s =
     (if py_eq_int commit_control (- 1) then
        (case fail_record w ev r s of
           Raises e s' \<Rightarrow> Raises e s'
         | Returns ok s' \<Rightarrow> if ok then Returns () (emit (Committed r) s') else Returns () s')
      else Returns () (emit (Committed r) s))"

text \<open>The body of \<^verbatim>\<open>for record in self._consumer\<close>.\<close>

definition handle_record :: "worker \<Rightarrow> env \<Rightarrow> krecord \<Rightarrow> world \<Rightarrow> unit outcome option" where
  "handle_record w ev r s =
     (case attempt_loop w ev r (PInt 0) 0 s of
        None \<Rightarrow> None
      | Some (Raises e s') \<Rightarrow> Some (Raises e s')
      | Some (Returns (c, n) s') \<Rightarrow> Some (commit_or_fail w ev r c s'))"

text \<open>The \<^verbatim>\<open>for\<close> loop over the records the consumer hands out, one after the other.\<close>

fun run_records :: "worker \<Rightarrow> env \<Rightarrow> krecord list \<Rightarrow> world \<Rightarrow> unit outcome option" where
  "run_records w ev [] s = Some (Returns () s)"
| "run_records w ev (r # rs) s =
     (case handle_record w ev r s of
        None \<Rightarrow> None
      | Some (Raises e s') \<Rightarrow> Some (Raises e s')
      | Some (Returns u s') \<Rightarrow> run_records w ev rs s')"

text \<open>
  \<^verbatim>\<open>start\<close>, run on the records fetched until the worker is stopped: the consumer never
  ends by itself (\<^verbatim>\<open>consumer_timeout_ms=-1\<close>), so after the last record the iterator
  waits until the \<^verbatim>\<open>KeyboardInterrupt\<close> of the stop arrives. The handler of
  \<^verbatim>\<open>KeyboardInterrupt\<close> terminates the pool; any other exception leaves \<^verbatim>\<open>start\<close>.
\<close>

definition start :: "worker \<Rightarrow> env \<Rightarrow> krecord list \<Rightarrow> world \<Rightarrow> unit outcome option" where
  "start w ev rs s =
     (case run_records w ev rs (emit (PoolCreated 1) (s\<lparr>pool := Some 1\<rparr>)) of
        None \<Rightarrow> None
      | Some (Raises e s') \<Rightarrow>
          if e = KeyboardInterrupt then Some (Returns () (emit PoolTerminated s'))
          else Some (Raises e s')
      | Some (Returns u s') \<Rightarrow> Some (Returns () (emit PoolTerminated s')))"

section \<open>Reading outcomes and traces\<close>

fun world_of :: "'a outcome \<Rightarrow> world" where
  "world_of (Returns v s) = s"
| "world_of (Raises e s) = s"

text \<open>What a call added to the trace: the events after those of the world it started in.\<close>

definition new_events :: "world \<Rightarrow> world \<Rightarrow> event list" where
  "new_events s s' = drop (length (trace s)) (trace s')"

text \<open>
  The arguments \<^verbatim>\<open>_consume_record\<close> gives the callback for what the call of the
  callable gave: the three calls of \<^verbatim>\<open>_exec_callback\<close>, in one function.
\<close>

fun outcome_args :: "env \<Rightarrow> job \<Rightarrow> nat \<Rightarrow> exc + pyval \<Rightarrow> cb_args" where
  "outcome_args ev j n (Inr v) =
     \<lparr>cb_status = ''success'', cb_job = j, cb_result = v, cb_exception = None,
      cb_traceback = None, cb_try_count = n\<rparr>"
| "outcome_args ev j n (Inl e) =
     (if e = MpTimeoutError then
        \<lparr>cb_status = ''timeout'', cb_job = j, cb_result = PNone, cb_exception = None,
         cb_traceback = None, cb_try_count = n\<rparr>
      else
        \<lparr>cb_status = ''failure'', cb_job = j, cb_result = PNone, cb_exception = Some e,
         cb_traceback = Some (format_exc ev e), cb_try_count = n\<rparr>)"

text \<open>An outcome the worker classifies: everything but an exception outside \<^verbatim>\<open>Exception\<close>.\<close>

fun classified :: "exc + pyval \<Rightarrow> bool" where
  "classified (Inr v) = True"
| "classified (Inl e) = is_Exception e"

text \<open>
  What building the log message of an outcome raises: the handler of
  \<^verbatim>\<open>mp.TimeoutError\<close> formats the job's id and timeout only.
\<close>

fun outcome_logged :: "env \<Rightarrow> exc + pyval \<Rightarrow> exc option" where
  "outcome_logged ev (Inr v) = format_value ev v"
| "outcome_logged ev (Inl e) = (if e = MpTimeoutError then None else format_error ev e)"

text \<open>
  A run of the callable that a try gets over: it ends, or it is awaited with a timeout;
  what it gives is classified, and the message of it is built.
\<close>

fun run_ok :: "worker \<Rightarrow> env \<Rightarrow> job \<Rightarrow> behaviour \<Rightarrow> bool" where
  "run_ok w ev j Hangs = (effective_timeout w j \<noteq> None)"
| "run_ok w ev j (Finishes d x) = (classified x \<and> outcome_logged ev x = None)"

text \<open>
  A reply of the callback that leaves \<^verbatim>\<open>resp\<close> at \<^verbatim>\<open>None\<close>: it returns
  \<^verbatim>\<open>None\<close>, or raises an \<^verbatim>\<open>Exception\<close> of which the log line is built.
\<close>

fun no_decision :: "env \<Rightarrow> cb_reply \<Rightarrow> bool" where
  "no_decision ev (CbReturns v) = (v = PNone)"
| "no_decision ev (CbRaises e) = (is_Exception e \<and> format_error ev e = None)"

text \<open>
  The loop of \<^verbatim>\<open>start\<close> again, cut off after a number of rounds, so that a loop that
  never ends can be looked at as far as it got: \<open>More\<close> is the loop still going
  (with the \<^verbatim>\<open>commit_control\<close> and \<^verbatim>\<open>try_count\<close> it would go on with), \<open>Ended\<close>
  the loop left, \<open>Threw\<close> an exception out of a try, \<open>Stuck\<close> a try that never
  returns.
\<close>

datatype loop_result = More pyval nat world | Ended pyval nat world | Threw exc world | Stuck

fun as_result :: "(pyval \<times> nat) outcome \<Rightarrow> loop_result" where
  "as_result (Returns (c, n) s) = Ended c n s"
| "as_result (Raises e s) = Threw e s"

fun bounded_loop ::
  "nat \<Rightarrow> worker \<Rightarrow> env \<Rightarrow> krecord \<Rightarrow> pyval \<Rightarrow> nat \<Rightarrow> world \<Rightarrow> loop_result" where
  "bounded_loop 0 w ev r commit_control try_count s =
     (if py_eq_int commit_control 0 then More commit_control try_count s
      else Ended commit_control try_count s)"
| "bounded_loop (Suc k) w ev r commit_control try_count s =
     (if py_eq_int commit_control 0 then
        (case consume_record w ev r try_count s of
           None \<Rightarrow> Stuck
         | Some (Raises e s') \<Rightarrow> Threw e s'
         | Some (Returns c s') \<Rightarrow> bounded_loop k w ev r c (try_count + 1) s')
      else Ended commit_control try_count s)"

text \<open>The \<^verbatim>\<open>try_count\<close> of every call of \<^verbatim>\<open>_consume_record\<close> and of the callback in a trace.\<close>

fun attempt_try_counts :: "event list \<Rightarrow> nat list" where
  "attempt_try_counts [] = []"
| "attempt_try_counts (Attempt r n # es) = n # attempt_try_counts es"
| "attempt_try_counts (e # es) = attempt_try_counts es"

fun callback_try_counts :: "event list \<Rightarrow> nat list" where
  "callback_try_counts [] = []"
| "callback_try_counts (CallbackCalled a # es) = cb_try_count a # callback_try_counts es"
| "callback_try_counts (e # es) = callback_try_counts es"

fun is_commit_event :: "event \<Rightarrow> bool" where
  "is_commit_event (Committed r) = True"
| "is_commit_event e = False"

fun is_forward_event :: "event \<Rightarrow> bool" where
  "is_forward_event (QueueBuilt n c) = True"
| "is_forward_event (Sent n t v k) = True"
| "is_forward_event e = False"

fun is_attempt_event :: "event \<Rightarrow> bool" where
  "is_attempt_event (Attempt r n) = True"
| "is_attempt_event (Executed j m) = True"
| "is_attempt_event (CallbackCalled a) = True"
| "is_attempt_event e = False"

text \<open>
  The tries of a record reach the callback: the worker has one, and the payload loads
  to a valid job.
\<close>

definition calls_back :: "worker \<Rightarrow> env \<Rightarrow> krecord \<Rightarrow> bool" where
  "calls_back w ev r =
     (w_callback w \<noteq> None \<and>
      (case dill_loads ev (rec_value r) of Inl e \<Rightarrow> False | Inr obj \<Rightarrow> valid_job obj))"

text \<open>The decision \<^verbatim>\<open>_exec_callback\<close> makes of what the callback returned.\<close>

fun decision_of :: "pyval \<Rightarrow> pyval" where
  "decision_of PNone = PInt 1"
| "decision_of v = v"

text \<open>
  An event that leaves the pool alone: it makes no pool, and if it runs a callable on a
  pool, then on the one of \<open>p\<close> processes that the worker holds.
\<close>

fun quiet :: "nat option \<Rightarrow> event \<Rightarrow> bool" where
  "quiet p (PoolCreated n) = False"
| "quiet p (Executed j (Pooled q t)) = (p = Some q)"
| "quiet p e = True"

text \<open>
  \<open>s'\<close> continues \<open>s\<close>: the same pool, the trace of \<open>s\<close> with quiet events after it.
\<close>

definition continues :: "world \<Rightarrow> world \<Rightarrow> bool" where
  "continues s s' =
     (pool s' = pool s \<and> take (length (trace s)) (trace s') = trace s \<and>
      list_all (quiet (pool s)) (new_events s s'))"

text \<open>
  The rest of the \<^verbatim>\<open>for\<close> body from a state of the inner loop: the loop from
  \<^verbatim>\<open>commit_control\<close> and \<^verbatim>\<open>try_count\<close> on, then the commit or the forward.
\<close>

definition record_from ::
  "worker \<Rightarrow> env \<Rightarrow> krecord \<Rightarrow> pyval \<Rightarrow> nat \<Rightarrow> world \<Rightarrow> unit outcome option" where
  "record_from w ev r commit_control try_count s =
     (case attempt_loop w ev r commit_control try_count s of
        None \<Rightarrow> None
      | Some (Raises e s') \<Rightarrow> Some (Raises e s')
      | Some (Returns (c, n) s') \<Rightarrow> Some (commit_or_fail w ev r c s'))"

section \<open>Concrete inputs\<close>

definition add_job :: job where
  "add_job =
     \<lparr>job_id = ''j1'', job_func = PFunc ''add'', job_args = PList [PInt 2, PInt 3],
      job_kwargs = PDict [], job_timeout = None, job_key = PStr ''k1''\<rparr>"

definition slow_job :: job where
  "slow_job =
     \<lparr>job_id = ''j2'', job_func = PFunc ''sleep'', job_args = PList [PInt 10],
      job_kwargs = PDict [], job_timeout = Some 1, job_key = PNone\<rparr>"

text \<open>
  An environment: the payload \<^verbatim>\<open>add\<close> loads to a job that returns \<^verbatim>\<open>5\<close> at once,
  \<^verbatim>\<open>slow\<close> to a job of timeout 1 that takes 10 seconds, \<^verbatim>\<open>obj\<close> to an object that is
  no job, and nothing else loads. The broker acknowledges the first forwarded record
  after one second and fails the later ones.
\<close>

definition test_env :: env where
  "test_env =
     \<lparr>dill_loads = (\<lambda>b. if b = ''add'' then Inr (JobObj add_job)
                         else if b = ''slow'' then Inr (JobObj slow_job)
                         else if b = ''obj'' then Inr (OtherObj None)
                         else Inl (OtherException ''UnpicklingError'')),
      run_func = (\<lambda>n j. if job_id j = ''j2'' then Finishes 10 (Inr PNone)
                         else Finishes 0 (Inr (PInt 5))),
      func_repr = (\<lambda>f a k. None),
      format_value = (\<lambda>v. None),
      format_error = (\<lambda>e. None),
      format_exc = (\<lambda>e. ''Traceback''),
      queue_ctor = (\<lambda>n. None),
      broker = (\<lambda>n. if n = 0 then AckAfter 1 else GetRaises (KafkaError (Some ''failed''))),
      kafka_timeout = KafkaError (Some ''KafkaTimeoutError'')\<rparr>"

definition plain_worker :: worker where
  "plain_worker =
     \<lparr>w_hosts = ''127.0.0.1:9092'', w_topic = ''default'', w_timeout = None,
      w_connect_timeout = 5, w_callback = None, w_job_size = 1048576, w_cafile = None,
      w_certfile = None, w_keyfile = None, w_crlfile = None\<rparr>"

text \<open>A worker whose callback answers \<open>v\<close> on the first \<open>n\<close> tries of a record and \<open>v'\<close> after.\<close>

definition answering_worker :: "nat \<Rightarrow> pyval \<Rightarrow> pyval \<Rightarrow> worker" where
  "answering_worker n v v' =
     plain_worker\<lparr>w_callback := Some (\<lambda>i a. CbReturns (if cb_try_count a < n then v else v'))\<rparr>"

text \<open>A worker whose callback raises \<open>e\<close> whenever it is called.\<close>

definition raising_worker :: "exc \<Rightarrow> worker" where
  "raising_worker e = plain_worker\<lparr>w_callback := Some (\<lambda>i a. CbRaises e)\<rparr>"

text \<open>
  A job that passes the validity check with a keyword that is no string, and the
  environment in which \<^verbatim>\<open>func_repr\<close> raises \<^verbatim>\<open>TypeError\<close> on such keywords; the
  payload \<^verbatim>\<open>odd\<close> loads to that job.
\<close>

definition odd_job :: job where
  "odd_job =
     \<lparr>job_id = ''j3'', job_func = PFunc ''add'', job_args = PList [],
      job_kwargs = PDict [(PInt 1, PInt 2)], job_timeout = None, job_key = PNone\<rparr>"

fun is_str :: "pyval \<Rightarrow> bool" where
  "is_str (PStr s) = True"
| "is_str v = False"

fun keyword_error :: "pyval \<Rightarrow> exc option" where
  "keyword_error (PDict kvs) =
     (if list_all (\<lambda>kv. is_str (fst kv)) kvs then None else Some (OtherException ''TypeError''))"
| "keyword_error v = None"

definition strict_env :: env where
  "strict_env =
     test_env\<lparr>dill_loads :=
                (\<lambda>b. if b = ''odd'' then Inr (JobObj odd_job) else dill_loads test_env b),
              func_repr := (\<lambda>f a k. keyword_error k)\<rparr>"

text \<open>The environment in which no message can be made of the result of a callable.\<close>

definition unprintable_env :: env where
  "unprintable_env =
     test_env\<lparr>format_value := (\<lambda>v. Some (OtherException ''UnicodeDecodeError''))\<rparr>"

definition record_of :: "string \<Rightarrow> krecord" where
  "record_of payload =
     \<lparr>rec_topic = ''default'', rec_partition = 0, rec_offset = 7, rec_key = PNone,
      rec_value = payload\<rparr>"

text \<open>The world right after \<^verbatim>\<open>start\<close> has made its pool.\<close>

definition started :: world where
  "started = \<lparr>trace = [PoolCreated 1], pool = Some 1\<rparr>"

section \<open>Basic facts\<close>

lemmas example_defs =
  add_job_def slow_job_def test_env_def plain_worker_def answering_worker_def
  raising_worker_def odd_job_def strict_env_def unprintable_env_def record_of_def
  started_def

lemma trace_emit [simp]: "trace (emit e s) = trace s @ [e]"
  by (simp add: emit_def)

lemma pool_emit [simp]: "pool (emit e s) = pool s"
  by (simp add: emit_def)

lemma callbacks_emit [simp]:
  "callbacks_so_far (emit e s) =
     (if is_callback_event e then Suc (callbacks_so_far s) else callbacks_so_far s)"
  by (simp add: callbacks_so_far_def)

lemma executions_emit [simp]:
  "executions_so_far (emit e s) =
     (if is_executed_event e then Suc (executions_so_far s) else executions_so_far s)"
  by (simp add: executions_so_far_def)

lemma queues_emit [simp]:
  "queues_so_far (emit e s) =
     (if is_queue_event e then Suc (queues_so_far s) else queues_so_far s)"
  by (simp add: queues_so_far_def)

text \<open>The loop leaves at once on a decision other than \<^verbatim>\<open>0\<close>, and goes round once more on \<^verbatim>\<open>0\<close>.\<close>

lemma loop_stop:
  "\<not> py_eq_int c 0 \<Longrightarrow> attempt_loop w ev r c tc s = Some (Returns (c, tc) s)"
  by (subst attempt_loop.simps) simp

lemma loop_step:
  "py_eq_int c 0 \<Longrightarrow> consume_record w ev r tc s = Some (Returns c' s') \<Longrightarrow>
   attempt_loop w ev r c tc s = attempt_loop w ev r c' (Suc tc) s'"
  by (subst attempt_loop.simps) simp

lemma record_from_stop:
  "\<not> py_eq_int c 0 \<Longrightarrow> record_from w ev r c tc s = Some (commit_or_fail w ev r c s)"
  by (simp add: record_from_def loop_stop)

lemma record_from_step:
  "py_eq_int c 0 \<Longrightarrow> consume_record w ev r tc s = Some (Returns c' s') \<Longrightarrow>
   record_from w ev r c tc s = record_from w ev r c' (Suc tc) s'"
  by (simp add: record_from_def loop_step)

lemma handle_record_from: "handle_record w ev r s = record_from w ev r (PInt 0) 0 s"
  by (simp add: handle_record_def record_from_def)

lemma commit_plain:
  "\<not> py_eq_int c (- 1) \<Longrightarrow> commit_or_fail w ev r c s = Returns () (emit (Committed r) s)"
  by (simp add: commit_or_fail_def)

text \<open>
  A valid job whose messages are built and whose call gave a classified outcome reaches
  the callback with that outcome.
\<close>

lemma consume_record_valid:
  assumes "dill_loads ev (rec_value r) = Inr (JobObj j)" and "valid_job (JobObj j)"
    and "func_repr ev (job_func j) (job_args j) (job_kwargs j) = None"
    and "run_job w ev j (emit (Attempt r tc) s) = Some (res, s1)" and "classified res"
    and "outcome_logged ev res = None"
  shows "consume_record w ev r tc s =
           Some (exec_callback w ev (outcome_args ev j tc res) s1)"
  using assms by (cases res) (auto simp: consume_record_def Let_def)

lemma exec_callback_default:
  assumes "w_callback w = None \<or>
           (\<exists>cb. w_callback w = Some cb \<and> no_decision ev (cb (callbacks_so_far s) a))"
  shows "exec_callback w ev a s =
           Returns (PInt 1) (if w_callback w = None then s else emit (CallbackCalled a) s)"
proof (cases "w_callback w")
  case None
  then show ?thesis by (simp add: exec_callback_def)
next
  case (Some cb)
  with assms have "no_decision ev (cb (callbacks_so_far s) a)" by simp
  with Some show ?thesis
    by (cases "cb (callbacks_so_far s) a") (simp_all add: exec_callback_def)
qed

lemma exec_callback_returns:
  assumes "w_callback w = Some cb" and "cb (callbacks_so_far s) a = CbReturns v"
    and "v \<noteq> PNone"
  shows "exec_callback w ev a s = Returns v (emit (CallbackCalled a) s)"
  using assms by (simp add: exec_callback_def)

lemma consume_record_malformed:
  assumes "case dill_loads ev (rec_value r) of Inl e \<Rightarrow> True | Inr obj \<Rightarrow> \<not> valid_job obj"
  shows "consume_record w ev r tc s = Some (Returns (PInt (- 1)) (emit (Attempt r tc) s))"
  using assms by (auto simp: consume_record_def Let_def split: sum.splits)

text \<open>What \<^verbatim>\<open>func_repr\<close> raises on a valid job leaves the try before anything is run.\<close>

lemma consume_record_func_repr:
  assumes "dill_loads ev (rec_value r) = Inr (JobObj j)" and "valid_job (JobObj j)"
    and "func_repr ev (job_func j) (job_args j) (job_kwargs j) = Some e"
  shows "consume_record w ev r tc s = Some (Raises e (emit (Attempt r tc) s))"
  using assms by (simp add: consume_record_def Let_def)

text \<open>
  So the handling of the record and \<^verbatim>\<open>start\<close> end with that exception, unless it is
  the \<^verbatim>\<open>KeyboardInterrupt\<close> that \<^verbatim>\<open>start\<close> takes for its stop; the callable is not
  run, the callback is not called and nothing is committed.
\<close>

lemma func_repr_error_leaves_start:
  assumes "dill_loads ev (rec_value r) = Inr (JobObj j)" and "valid_job (JobObj j)"
    and "func_repr ev (job_func j) (job_args j) (job_kwargs j) = Some e"
  shows "handle_record w ev r s = Some (Raises e (emit (Attempt r 0) s))"
    and "e \<noteq> KeyboardInterrupt \<Longrightarrow>
         start w ev (r # rs) s =
           Some (Raises e (emit (Attempt r 0) (emit (PoolCreated 1) (s\<lparr>pool := Some 1\<rparr>))))"
proof -
  have c: "consume_record w ev r 0 s' = Some (Raises e (emit (Attempt r 0) s'))" for s'
    using assms by (rule consume_record_func_repr)
  have l: "attempt_loop w ev r (PInt 0) 0 s' = Some (Raises e (emit (Attempt r 0) s'))" for s'
    by (subst attempt_loop.simps) (simp add: c)
  show h: "handle_record w ev r s = Some (Raises e (emit (Attempt r 0) s))"
    by (simp add: handle_record_def l)
  show "start w ev (r # rs) s =
           Some (Raises e (emit (Attempt r 0) (emit (PoolCreated 1) (s\<lparr>pool := Some 1\<rparr>))))"
    if "e \<noteq> KeyboardInterrupt"
    using that by (simp add: start_def handle_record_def l)
qed

lemma func_repr_error_example:
  "start plain_worker strict_env [record_of ''odd''] \<lparr>trace = [], pool = None\<rparr> =
     Some (Raises (OtherException ''TypeError'')
       \<lparr>trace = [PoolCreated 1, Attempt (record_of ''odd'') 0], pool = Some 1\<rparr>)"
  by (simp add: start_def handle_record_def attempt_loop.simps consume_record_def
      emit_def example_defs)

section \<open>The default decision\<close>

text \<open>
  Claim C1, as stated, fails for a callback that raises an exception outside
  \<^verbatim>\<open>Exception\<close>: \<^verbatim>\<open>except Exception\<close> in \<^verbatim>\<open>_exec_callback\<close> does not catch it. Here the
  job returns \<^verbatim>\<open>5\<close> and the callback raises \<^verbatim>\<open>SystemExit\<close>: the exception leaves the
  try, the handling of the record and \<^verbatim>\<open>start\<close>, and nothing is committed. It fails
  also where the message of the outcome cannot be built: with no callback at all, what
  \<^verbatim>\<open>'Job {} returned: {}'.format(job.id, res)\<close> raises leaves \<^verbatim>\<open>start\<close> before the
  default decision is made.
\<close>

theorem callback_exit_counterexample:
  "consume_record (raising_worker (OtherBaseException ''SystemExit'')) test_env
     (record_of ''add'') 0 started =
     Some (Raises (OtherBaseException ''SystemExit'')
       \<lparr>trace = [PoolCreated 1, Attempt (record_of ''add'') 0, Executed add_job Inline,
                 CallbackCalled (outcome_args test_env add_job 0 (Inr (PInt 5)))],
        pool = Some 1\<rparr>) \<and>
   start (raising_worker (OtherBaseException ''SystemExit'')) test_env [record_of ''add'']
     \<lparr>trace = [], pool = None\<rparr> =
     Some (Raises (OtherBaseException ''SystemExit'')
       \<lparr>trace = [PoolCreated 1, Attempt (record_of ''add'') 0, Executed add_job Inline,
                 CallbackCalled (outcome_args test_env add_job 0 (Inr (PInt 5)))],
        pool = Some 1\<rparr>) \<and>
   start plain_worker unprintable_env [record_of ''add''] \<lparr>trace = [], pool = None\<rparr> =
     Some (Raises (OtherException ''UnicodeDecodeError'')
       \<lparr>trace = [PoolCreated 1, Attempt (record_of ''add'') 0, Executed add_job Inline],
        pool = Some 1\<rparr>)"
  by (simp add: start_def handle_record_def attempt_loop.simps consume_record_def
      run_job_def exec_callback_def effective_timeout_def emit_def executions_so_far_def
      callbacks_so_far_def example_defs)

text \<open>
  Claim C1, amended. A record whose payload is a valid job is tried (any try, \<open>tc\<close>),
  the call of its callable ends in success, failure or timeout (\<open>res\<close>), and the
  log messages of the try are built. If the worker has no callback, or the callback
  returns \<^verbatim>\<open>None\<close> for this outcome, or raises an exception of class \<^verbatim>\<open>Exception\<close>
  (it is caught, and nothing is raised further: the try returns), then the try returns
  the decision \<^verbatim>\<open>1\<close>, the loop ends with it after this try, and the rest of the
  record's handling is one call of \<^verbatim>\<open>commit\<close>, with no forward.
\<close>

theorem default_commit:
  assumes "dill_loads ev (rec_value r) = Inr (JobObj j)" and "valid_job (JobObj j)"
    and "func_repr ev (job_func j) (job_args j) (job_kwargs j) = None"
    and "run_job w ev j (emit (Attempt r tc) s) = Some (res, s1)" and "classified res"
    and "outcome_logged ev res = None"
    and "w_callback w = None \<or>
         (\<exists>cb. w_callback w = Some cb \<and>
               no_decision ev (cb (callbacks_so_far s1) (outcome_args ev j tc res)))"
    and "s2 = (if w_callback w = None then s1
               else emit (CallbackCalled (outcome_args ev j tc res)) s1)"
  shows "consume_record w ev r tc s = Some (Returns (PInt 1) s2) \<and>
         attempt_loop w ev r (PInt 0) tc s = Some (Returns (PInt 1, Suc tc) s2) \<and>
         record_from w ev r (PInt 0) tc s = Some (Returns () (emit (Committed r) s2))"
proof -
  have c: "consume_record w ev r tc s = Some (Returns (PInt 1) s2)"
    using consume_record_valid [OF assms(1-6)] exec_callback_default [OF assms(7)] assms(8)
    by simp
  have l: "attempt_loop w ev r (PInt 0) tc s = Some (Returns (PInt 1, Suc tc) s2)"
    using loop_step [OF _ c, of "PInt 0"] by (simp add: loop_stop)
  have "record_from w ev r (PInt 0) tc s = Some (Returns () (emit (Committed r) s2))"
    using l by (simp add: record_from_def commit_plain)
  with c l show ?thesis by simp
qed

theorem default_commit_witness:
  "record_from (raising_worker (OtherException ''ValueError'')) test_env (record_of ''add'')
     (PInt 0) 0 started =
     Some (Returns ()
       \<lparr>trace = [PoolCreated 1, Attempt (record_of ''add'') 0, Executed add_job Inline,
                 CallbackCalled (outcome_args test_env add_job 0 (Inr (PInt 5))),
                 Committed (record_of ''add'')],
        pool = Some 1\<rparr>) \<and>
   record_from plain_worker test_env (record_of ''add'') (PInt 0) 0 started =
     Some (Returns ()
       \<lparr>trace = [PoolCreated 1, Attempt (record_of ''add'') 0, Executed add_job Inline,
                 Committed (record_of ''add'')],
        pool = Some 1\<rparr>)"
  using default_commit [of test_env "record_of ''add''" add_job
      "raising_worker (OtherException ''ValueError'')" 0 started "Inr (PInt 5)"
      "emit (Executed add_job Inline) (emit (Attempt (record_of ''add'') 0) started)"]
    default_commit [of test_env "record_of ''add''" add_job plain_worker 0 started
      "Inr (PInt 5)"
      "emit (Executed add_job Inline) (emit (Attempt (record_of ''add'') 0) started)"]
  by (simp add: example_defs run_job_def effective_timeout_def emit_def
      executions_so_far_def callbacks_so_far_def)

section \<open>Payloads that are no job\<close>

text \<open>
  Claim C4. When the payload does not load, or loads to something that is not a
  \<^verbatim>\<open>Job\<close> with iterable \<^verbatim>\<open>args\<close>, mapping \<^verbatim>\<open>kwargs\<close> and callable \<^verbatim>\<open>func\<close>, a try
  returns the decision \<^verbatim>\<open>-1\<close> and adds nothing to the trace but its own entry: no
  callable is run and the callback is not called. The loop ends after this one try, and
  what follows is the branch of the dead-letter decision.
\<close>

theorem malformed_dead_letter:
  assumes "case dill_loads ev (rec_value r) of Inl e \<Rightarrow> True | Inr obj \<Rightarrow> \<not> valid_job obj"
  shows "consume_record w ev r tc s = Some (Returns (PInt (- 1)) (emit (Attempt r tc) s)) \<and>
         executions_so_far (emit (Attempt r tc) s) = executions_so_far s \<and>
         callbacks_so_far (emit (Attempt r tc) s) = callbacks_so_far s \<and>
         attempt_loop w ev r (PInt 0) tc s =
           Some (Returns (PInt (- 1), Suc tc) (emit (Attempt r tc) s)) \<and>
         record_from w ev r (PInt 0) tc s =
           Some (commit_or_fail w ev r (PInt (- 1)) (emit (Attempt r tc) s))"
proof -
  have c: "consume_record w ev r tc s = Some (Returns (PInt (- 1)) (emit (Attempt r tc) s))"
    using assms by (rule consume_record_malformed)
  have l: "attempt_loop w ev r (PInt 0) tc s =
           Some (Returns (PInt (- 1), Suc tc) (emit (Attempt r tc) s))"
    using loop_step [OF _ c, of "PInt 0"] by (simp add: loop_stop)
  have "record_from w ev r (PInt 0) tc s =
           Some (commit_or_fail w ev r (PInt (- 1)) (emit (Attempt r tc) s))"
    using l by (simp add: record_from_def)
  with c l show ?thesis by simp
qed

theorem malformed_dead_letter_witness:
  "consume_record (answering_worker 0 (PInt 0) (PInt 1)) test_env (record_of ''obj'') 0
     started =
     Some (Returns (PInt (- 1))
       \<lparr>trace = [PoolCreated 1, Attempt (record_of ''obj'') 0], pool = Some 1\<rparr>)"
  using malformed_dead_letter [of test_env "record_of ''obj''"
      "answering_worker 0 (PInt 0) (PInt 1)" 0 started]
  by (simp add: example_defs emit_def)

section \<open>Decisions returned by the callback\<close>

text \<open>
  Claim C5, as stated, fails on the value \<^verbatim>\<open>0\<close>: it is not \<^verbatim>\<open>None\<close> and not the
  dead-letter sentinel \<^verbatim>\<open>-1\<close>, and a callback that returns it makes the loop try the
  record again instead of committing. Here the callback returns \<^verbatim>\<open>0\<close> on the first try
  and \<^verbatim>\<open>1\<close> on the second: the first try returns \<^verbatim>\<open>0\<close>, and the loop ends with
  \<^verbatim>\<open>try_count = 2\<close>.
\<close>

theorem zero_is_retry_counterexample:
  "consume_record (answering_worker 1 (PInt 0) (PInt 1)) test_env (record_of ''add'') 0
     started =
     Some (Returns (PInt 0)
       \<lparr>trace = [PoolCreated 1, Attempt (record_of ''add'') 0, Executed add_job Inline,
                 CallbackCalled (outcome_args test_env add_job 0 (Inr (PInt 5)))],
        pool = Some 1\<rparr>) \<and>
   PInt 0 \<noteq> PNone \<and> \<not> py_eq_int (PInt 0) (- 1) \<and>
   attempt_loop (answering_worker 1 (PInt 0) (PInt 1)) test_env (record_of ''add'')
     (PInt 0) 0 started =
     Some (Returns (PInt 1, 2)
       \<lparr>trace = [PoolCreated 1, Attempt (record_of ''add'') 0, Executed add_job Inline,
                 CallbackCalled (outcome_args test_env add_job 0 (Inr (PInt 5))),
                 Attempt (record_of ''add'') 1, Executed add_job Inline,
                 CallbackCalled (outcome_args test_env add_job 1 (Inr (PInt 5)))],
        pool = Some 1\<rparr>)"
  by (simp add: attempt_loop.simps consume_record_def run_job_def exec_callback_def
      effective_timeout_def emit_def executions_so_far_def callbacks_so_far_def
      example_defs)

text \<open>
  Claim C5, amended. A try of a valid job, of which the messages are built, reaches the
  callback. When the callback returns a value that is not \<^verbatim>\<open>None\<close>, does not equal
  \<^verbatim>\<open>0\<close> (the retry signal) and does not equal \<^verbatim>\<open>-1\<close> (the dead-letter sentinel),
  the try returns that value, the loop ends after this try, and the rest of the
  record's handling is one call of \<^verbatim>\<open>commit\<close>, with no forward.
\<close>

theorem decisive_value_commits:
  assumes "dill_loads ev (rec_value r) = Inr (JobObj j)" and "valid_job (JobObj j)"
    and "func_repr ev (job_func j) (job_args j) (job_kwargs j) = None"
    and "run_job w ev j (emit (Attempt r tc) s) = Some (res, s1)" and "classified res"
    and "outcome_logged ev res = None"
    and "w_callback w = Some cb"
    and "cb (callbacks_so_far s1) (outcome_args ev j tc res) = CbReturns v"
    and "v \<noteq> PNone" and "\<not> py_eq_int v 0" and "\<not> py_eq_int v (- 1)"
    and "s2 = emit (CallbackCalled (outcome_args ev j tc res)) s1"
  shows "consume_record w ev r tc s = Some (Returns v s2) \<and>
         attempt_loop w ev r (PInt 0) tc s = Some (Returns (v, Suc tc) s2) \<and>
         record_from w ev r (PInt 0) tc s = Some (Returns () (emit (Committed r) s2))"
proof -
  have c: "consume_record w ev r tc s = Some (Returns v s2)"
    using consume_record_valid [OF assms(1-6)] exec_callback_returns [OF assms(7-9)]
      assms(12)
    by simp
  have l: "attempt_loop w ev r (PInt 0) tc s = Some (Returns (v, Suc tc) s2)"
    using loop_step [OF _ c, of "PInt 0"] assms(10) by (simp add: loop_stop)
  have "record_from w ev r (PInt 0) tc s = Some (Returns () (emit (Committed r) s2))"
    using l assms(11) by (simp add: record_from_def commit_plain)
  with c l show ?thesis by simp
qed

theorem decisive_value_commits_witness:
  "record_from (answering_worker 0 (PInt 0) (PStr ''done'')) test_env (record_of ''add'')
     (PInt 0) 0 started =
     Some (Returns ()
       \<lparr>trace = [PoolCreated 1, Attempt (record_of ''add'') 0, Executed add_job Inline,
                 CallbackCalled (outcome_args test_env add_job 0 (Inr (PInt 5))),
                 Committed (record_of ''add'')],
        pool = Some 1\<rparr>)"
  using decisive_value_commits [of test_env "record_of ''add''" add_job
      "answering_worker 0 (PInt 0) (PStr ''done'')" 0 started
      "Inr (PInt 5)"
      "emit (Executed add_job Inline) (emit (Attempt (record_of ''add'') 0) started)"
      "\<lambda>i a. CbReturns (if cb_try_count a < 0 then PInt 0 else PStr ''done'')"
      "PStr ''done''"]
  by (simp add: example_defs run_job_def effective_timeout_def emit_def
      executions_so_far_def callbacks_so_far_def)

section \<open>What no method does to the pool\<close>

text \<open>
  Only \<^verbatim>\<open>start\<close> assigns \<^verbatim>\<open>self._pool\<close>. Every other step keeps the pool and adds
  quiet events only, whatever its outcome.
\<close>

lemma continues_iff:
  "continues s s' \<longleftrightarrow>
     pool s' = pool s \<and> (\<exists>evs. trace s' = trace s @ evs \<and> list_all (quiet (pool s)) evs)"
proof
  assume c: "continues s s'"
  then have "trace s' = trace s @ new_events s s'"
    unfolding continues_def new_events_def by (metis append_take_drop_id)
  with c show "pool s' = pool s \<and> (\<exists>evs. trace s' = trace s @ evs \<and> list_all (quiet (pool s)) evs)"
    unfolding continues_def by blast
next
  assume "pool s' = pool s \<and> (\<exists>evs. trace s' = trace s @ evs \<and> list_all (quiet (pool s)) evs)"
  then show "continues s s'"
    by (auto simp: continues_def new_events_def)
qed

lemma continues_refl [simp]: "continues s s"
  by (simp add: continues_iff)

lemma continues_trans: "continues s s' \<Longrightarrow> continues s' s'' \<Longrightarrow> continues s s''"
  by (auto simp: continues_iff)

lemma continues_emit: "quiet (pool s) e \<Longrightarrow> continues s (emit e s)"
  by (simp add: continues_iff)

lemma continues_emit2: "continues s s' \<Longrightarrow> quiet (pool s) e \<Longrightarrow> continues s (emit e s')"
  by (auto simp: continues_iff)

lemma exec_callback_continues: "continues s (world_of (exec_callback w ev a s))"
  by (auto simp: exec_callback_def continues_emit split: option.splits cb_reply.splits)

lemma run_job_continues: "run_job w ev j s = Some (res, s1) \<Longrightarrow> continues s s1"
  by (auto simp: run_job_def continues_emit split: option.splits behaviour.splits if_splits)

lemma consume_record_continues:
  assumes "consume_record w ev r tc s = Some out"
  shows "continues s (world_of out)"
proof -
  let ?s0 = "emit (Attempt r tc) s"
  have s0: "continues s ?s0" by (simp add: continues_emit)
  have cb: "continues s (world_of (exec_callback w ev a s1))"
    if "run_job w ev j ?s0 = Some (res, s1)" for a j res s1
    using continues_trans [OF s0 continues_trans [OF run_job_continues [OF that] exec_callback_continues]] .
  have rs: "continues s s1" if "run_job w ev j ?s0 = Some (res, s1)" for j res s1
    using continues_trans [OF s0 run_job_continues [OF that]] .
  show ?thesis
    using assms s0 cb rs
    by (auto simp: consume_record_def Let_def split: sum.splits option.splits prod.splits if_splits)
qed

lemma get_failed_world [simp]: "world_of (get_failed e s) = s"
  by (cases "(e, s)" rule: get_failed.cases) simp_all

lemma fail_record_continues: "continues s (world_of (fail_record w ev r s))"
  by (auto simp: fail_record_def Let_def continues_emit continues_emit2
      split: option.splits delivery.splits)

lemma commit_or_fail_continues: "continues s (world_of (commit_or_fail w ev r c s))"
proof (cases "py_eq_int c (- 1)")
  case False
  then show ?thesis by (simp add: commit_plain continues_emit)
next
  case True
  have f: "continues s (world_of (fail_record w ev r s))" by (rule fail_record_continues)
  show ?thesis
  proof (cases "fail_record w ev r s")
    case (Returns ok s')
    with f True show ?thesis by (simp add: commit_or_fail_def continues_emit2)
  next
    case (Raises e s')
    with f True show ?thesis by (simp add: commit_or_fail_def)
  qed
qed

lemma attempt_loop_continues:
  assumes "attempt_loop w ev r c tc s = Some out"
  shows "continues s (world_of out)"
proof (rule attempt_loop.raw_induct
    [where P = "\<lambda>w ev r c tc s out. continues s (world_of out)", OF _ assms])
  fix loop w ev r c tc s out
  assume IH: "\<And>w ev r c tc s out. loop w ev r c tc s = Some out \<Longrightarrow> continues s (world_of out)"
    and body: "(if py_eq_int c 0
           then case consume_record w ev r tc s of None \<Rightarrow> None
                | Some (Returns c s') \<Rightarrow> loop w ev r c (tc + 1) s'
                | Some (Raises e s') \<Rightarrow> Some (Raises e s')
           else Some (Returns (c, tc) s)) = Some out"
  show "continues s (world_of out)"
  proof (cases "py_eq_int c 0")
    case False
    with body show ?thesis by auto
  next
    case True
    show ?thesis
    proof (cases "consume_record w ev r tc s")
      case None
      with True body show ?thesis by simp
    next
      case (Some o1)
      note c1 = consume_record_continues [OF Some]
      show ?thesis
      proof (cases o1)
        case (Raises e s')
        with Some True body c1 show ?thesis by auto
      next
        case (Returns c' s')
        with Some True body have "loop w ev r c' (tc + 1) s' = Some out" by simp
        then have "continues s' (world_of out)" by (rule IH)
        with c1 Returns show ?thesis by (auto intro: continues_trans)
      qed
    qed
  qed
qed

lemma record_from_continues:
  assumes "record_from w ev r c tc s = Some out"
  shows "continues s (world_of out)"
proof (cases "attempt_loop w ev r c tc s")
  case None
  with assms show ?thesis by (simp add: record_from_def)
next
  case (Some o1)
  note l = attempt_loop_continues [OF Some]
  show ?thesis
  proof (cases o1)
    case (Raises e s')
    with Some assms l show ?thesis by (auto simp: record_from_def)
  next
    case (Returns p s')
    obtain c' n where p: "p = (c', n)" by (cases p)
    with Returns Some assms have "out = commit_or_fail w ev r c' s'"
      by (simp add: record_from_def)
    with l Returns commit_or_fail_continues [of s' w ev r c'] show ?thesis
      by (auto intro: continues_trans)
  qed
qed

lemma run_records_continues:
  "run_records w ev rs s = Some out \<Longrightarrow> continues s (world_of out)"
proof (induction rs arbitrary: s)
  case Nil
  then show ?case by auto
next
  case (Cons r rs)
  show ?case
  proof (cases "handle_record w ev r s")
    case None
    with Cons.prems show ?thesis by simp
  next
    case (Some o1)
    then have h: "continues s (world_of o1)"
      by (simp add: handle_record_from record_from_continues)
    show ?thesis
    proof (cases o1)
      case (Raises e s')
      with Some Cons.prems h show ?thesis by auto
    next
      case (Returns u s')
      with Some Cons.prems have "run_records w ev rs s' = Some out" by simp
      then have "continues s' (world_of out)" by (rule Cons.IH)
      with h Returns show ?thesis by (auto intro: continues_trans)
    qed
  qed
qed

lemma start_pool:
  assumes "start w ev rs s = Some out"
  shows "pool (world_of out) = Some 1 \<and>
         (\<exists>evs. trace (world_of out) = trace s @ PoolCreated 1 # evs \<and> list_all (quiet (Some 1)) evs)"
proof -
  let ?s0 = "emit (PoolCreated 1) (s\<lparr>pool := Some 1\<rparr>)"
  obtain o1 where o1: "run_records w ev rs ?s0 = Some o1"
    using assms by (auto simp: start_def split: option.splits)
  from run_records_continues [OF o1]
  obtain evs where e: "pool (world_of o1) = Some 1" "trace (world_of o1) = trace s @ PoolCreated 1 # evs"
      "list_all (quiet (Some 1)) evs"
    by (auto simp: continues_iff emit_def)
  have "world_of out = world_of o1 \<or> world_of out = emit PoolTerminated (world_of o1)"
    using assms o1 by (cases o1) (auto simp: start_def split: if_splits)
  with e show ?thesis by auto
qed

section \<open>The timeout and the way the callable is run\<close>

lemma run_job_inline:
  assumes "effective_timeout w j = None"
  shows "run_job w ev j s =
     (case run_func ev (executions_so_far s) j of
        Hangs \<Rightarrow> None
      | Finishes d x \<Rightarrow> Some (x, emit (Executed j Inline) s))"
  using assms by (simp add: run_job_def)

lemma run_job_pooled:
  assumes "effective_timeout w j = Some t" and "pool s = Some p"
  shows "run_job w ev j s =
     Some (case run_func ev (executions_so_far s) j of
             Hangs \<Rightarrow> Inl MpTimeoutError
           | Finishes d x \<Rightarrow> if int d \<le> t then x else Inl MpTimeoutError,
           emit (Executed j (Pooled p t)) s)"
  using assms by (simp add: run_job_def split: behaviour.splits)

lemma exec_callback_world:
  "w_callback w = Some cb \<Longrightarrow> world_of (exec_callback w ev a s) = emit (CallbackCalled a) s"
  by (simp add: exec_callback_def split: cb_reply.splits option.splits)

text \<open>
  Claim C6, as stated, fails for a worker-level timeout of \<^verbatim>\<open>0\<close>: it is configured,
  and \<^verbatim>\<open>self._timeout or job.timeout\<close> passes over it as it passes over \<^verbatim>\<open>None\<close>.
  With it a job that declares one second is run with one second, and a job that
  declares nothing is run with no timeout.
\<close>

theorem zero_worker_timeout_counterexample:
  "effective_timeout (plain_worker\<lparr>w_timeout := Some 0\<rparr>) slow_job = Some 1 \<and>
   effective_timeout (plain_worker\<lparr>w_timeout := Some 0\<rparr>) add_job = None"
  by (simp add: effective_timeout_def example_defs)

text \<open>
  Claim C6, amended. The effective timeout is the worker-level timeout if it is set and
  not \<^verbatim>\<open>0\<close>, else the job's own timeout, else none. With none the callable is run in
  the worker's own thread and its result is taken however long it takes; a callable
  that hangs keeps the worker from ever returning. With a timeout \<open>t\<close> the callable is
  given to the worker's pool and awaited for \<open>t\<close> seconds: its result if it is there in
  time, \<^verbatim>\<open>mp.TimeoutError\<close> if not. \<^verbatim>\<open>start\<close> makes that pool once, before the first
  record, with one process, and whatever is run on a pool until \<^verbatim>\<open>start\<close> ends is run
  on it.
\<close>

theorem timeout_choice_and_mode:
  "effective_timeout w j =
     (case w_timeout w of
        None \<Rightarrow> job_timeout j
      | Some t \<Rightarrow> if t = 0 then job_timeout j else Some t) \<and>
   (effective_timeout w j = None \<longrightarrow>
      run_job w ev j s =
        (case run_func ev (executions_so_far s) j of
           Hangs \<Rightarrow> None
         | Finishes d x \<Rightarrow> Some (x, emit (Executed j Inline) s))) \<and>
   (\<forall>t p. effective_timeout w j = Some t \<and> pool s = Some p \<longrightarrow>
      run_job w ev j s =
        Some (case run_func ev (executions_so_far s) j of
                Hangs \<Rightarrow> Inl MpTimeoutError
              | Finishes d x \<Rightarrow> if int d \<le> t then x else Inl MpTimeoutError,
              emit (Executed j (Pooled p t)) s)) \<and>
   (\<forall>out. start w ev rs s = Some out \<longrightarrow>
      pool (world_of out) = Some 1 \<and>
      (\<exists>evs. trace (world_of out) = trace s @ PoolCreated 1 # evs \<and>
             list_all (quiet (Some 1)) evs))"
proof -
  have a: "effective_timeout w j =
     (case w_timeout w of
        None \<Rightarrow> job_timeout j
      | Some t \<Rightarrow> if t = 0 then job_timeout j else Some t)"
    by (simp add: effective_timeout_def split: option.splits)
  show ?thesis
    using a run_job_inline [of w j ev s] run_job_pooled [of w j _ s _ ev] start_pool [of w ev rs s]
    by blast
qed

theorem timeout_choice_and_mode_witness:
  "effective_timeout (plain_worker\<lparr>w_timeout := Some 3\<rparr>) slow_job = Some 3 \<and>
   run_job (plain_worker\<lparr>w_timeout := Some 3\<rparr>) test_env slow_job started =
     Some (Inl MpTimeoutError,
       \<lparr>trace = [PoolCreated 1, Executed slow_job (Pooled 1 3)], pool = Some 1\<rparr>) \<and>
   effective_timeout plain_worker add_job = None \<and>
   run_job plain_worker test_env add_job started =
     Some (Inr (PInt 5), \<lparr>trace = [PoolCreated 1, Executed add_job Inline], pool = Some 1\<rparr>) \<and>
   start plain_worker test_env [record_of ''add''] \<lparr>trace = [], pool = None\<rparr> =
     Some (Returns ()
       \<lparr>trace = [PoolCreated 1, Attempt (record_of ''add'') 0, Executed add_job Inline,
                 Committed (record_of ''add''), PoolTerminated],
        pool = Some 1\<rparr>)"
  using timeout_choice_and_mode [of "plain_worker\<lparr>w_timeout := Some 3\<rparr>" slow_job test_env started "[]"]
    timeout_choice_and_mode [of plain_worker add_job test_env
      "started" "[record_of ''add'']"]
  by (simp add: example_defs emit_def executions_so_far_def start_def handle_record_def
      attempt_loop.simps consume_record_def run_job_def effective_timeout_def exec_callback_def
      commit_or_fail_def)

text \<open>
  Claim C7. A valid job, of which the message with \<^verbatim>\<open>func_repr\<close> is built, has the
  effective timeout \<open>t\<close>, the worker has its pool, and the callable is not done
  within \<open>t\<close> seconds (it takes longer, or hangs). Then the
  try is the call of \<^verbatim>\<open>_exec_callback\<close> with the status \<^verbatim>\<open>timeout\<close>, the job,
  \<^verbatim>\<open>None\<close> for result, exception and traceback, and the \<^verbatim>\<open>try_count\<close> of the try;
  a configured callback is called with exactly these, after the callable was given to
  the pool, and without a callback the try returns \<^verbatim>\<open>1\<close>.
\<close>

theorem timeout_outcome:
  assumes "dill_loads ev (rec_value r) = Inr (JobObj j)" and "valid_job (JobObj j)"
    and "func_repr ev (job_func j) (job_args j) (job_kwargs j) = None"
    and "effective_timeout w j = Some t" and "pool s = Some p"
    and "case run_func ev (executions_so_far s) j of Hangs \<Rightarrow> True | Finishes d x \<Rightarrow> t < int d"
    and "a = \<lparr>cb_status = ''timeout'', cb_job = j, cb_result = PNone, cb_exception = None,
              cb_traceback = None, cb_try_count = tc\<rparr>"
    and "s1 = emit (Executed j (Pooled p t)) (emit (Attempt r tc) s)"
  shows "consume_record w ev r tc s = Some (exec_callback w ev a s1) \<and>
         (w_callback w = None \<longrightarrow> exec_callback w ev a s1 = Returns (PInt 1) s1) \<and>
         (\<forall>cb. w_callback w = Some cb \<longrightarrow>
            trace (world_of (exec_callback w ev a s1)) =
              trace s @ [Attempt r tc, Executed j (Pooled p t), CallbackCalled a])"
proof -
  have rj: "run_job w ev j (emit (Attempt r tc) s) = Some (Inl MpTimeoutError, s1)"
    using run_job_pooled [of w j t "emit (Attempt r tc) s" p ev] assms(4,5,6,8)
    by (simp split: behaviour.splits)
  from consume_record_valid [OF assms(1-3) rj]
  have c: "consume_record w ev r tc s = Some (exec_callback w ev a s1)"
    using assms(7) by simp
  have n: "w_callback w = None \<longrightarrow> exec_callback w ev a s1 = Returns (PInt 1) s1"
    by (simp add: exec_callback_def)
  have "\<forall>cb. w_callback w = Some cb \<longrightarrow>
            trace (world_of (exec_callback w ev a s1)) =
              trace s @ [Attempt r tc, Executed j (Pooled p t), CallbackCalled a]"
    using assms(8) by (simp add: exec_callback_world)
  with c n show ?thesis by simp
qed

theorem timeout_outcome_witness:
  "consume_record (answering_worker 0 (PInt 0) (PInt 7)) test_env (record_of ''slow'') 4 started =
     Some (Returns (PInt 7)
       \<lparr>trace = [PoolCreated 1, Attempt (record_of ''slow'') 4, Executed slow_job (Pooled 1 1),
                 CallbackCalled
                   \<lparr>cb_status = ''timeout'', cb_job = slow_job, cb_result = PNone,
                    cb_exception = None, cb_traceback = None, cb_try_count = 4\<rparr>],
        pool = Some 1\<rparr>)"
  using timeout_outcome [where ev = test_env and r = "record_of ''slow''" and j = slow_job
      and w = "answering_worker 0 (PInt 0) (PInt 7)" and t = 1 and s = started and p = 1
      and a = "\<lparr>cb_status = ''timeout'', cb_job = slow_job, cb_result = PNone,
        cb_exception = None, cb_traceback = None, cb_try_count = 4\<rparr>" and tc = 4
      and ?s1.0 = "emit (Executed slow_job (Pooled 1 1))
        (emit (Attempt (record_of ''slow'') 4) started)"]
  by (simp add: example_defs effective_timeout_def emit_def executions_so_far_def
      callbacks_so_far_def exec_callback_def)

section \<open>The dead-letter forwarder\<close>

lemma new_events_append [simp]: "trace s' = trace s @ evs \<Longrightarrow> new_events s s' = evs"
  by (simp add: new_events_def)

lemma new_events_self [simp]: "new_events s s = []"
  by (simp add: new_events_def)

lemma new_events_emit [simp]: "new_events s (emit e s) = [e]"
  by (simp add: new_events_def)

lemma new_events_emit2 [simp]: "new_events s (emit e' (emit e s)) = [e, e']"
  by (simp add: new_events_def)

lemma new_events_emit3 [simp]: "new_events s (emit e'' (emit e' (emit e s))) = [e, e', e'']"
  by (simp add: new_events_def)

text \<open>The forwarder returns \<^verbatim>\<open>True\<close> exactly when the queue was built and the broker
  acknowledged within the wait.\<close>

lemma fail_record_true_iff:
  "(\<exists>s'. fail_record w ev r s = Returns True s') \<longleftrightarrow>
     queue_ctor ev (queues_so_far s) = None \<and>
     (\<exists>d. broker ev (queues_so_far s) = AckAfter d \<and> int d \<le> ack_timeout w)"
proof -
  have g: "get_failed e s' \<noteq> Returns True s''" for e s' s''
    by (cases "(e, s')" rule: get_failed.cases) simp_all
  show ?thesis
    by (auto simp: fail_record_def Let_def g split: option.splits delivery.splits)
qed

lemma fail_record_true_world:
  assumes "fail_record w ev r s = Returns True s'"
  shows "s' = emit (Sent (queues_so_far s) (get_fail_topic w) (rec_value r) (recover_key ev r))
                (emit (QueueBuilt (queues_so_far s) (fail_queue_cfg w)) s)"
proof -
  have g: "get_failed e s1 \<noteq> Returns True s2" for e s1 s2
    by (cases "(e, s1)" rule: get_failed.cases) simp_all
  show ?thesis
    using assms
    by (auto simp: fail_record_def Let_def g split: option.splits delivery.splits if_splits)
qed

lemma fail_record_events:
  "\<exists>evs. trace (world_of (fail_record w ev r s)) = trace s @ evs \<and> list_all is_forward_event evs"
  by (auto simp: fail_record_def Let_def split: option.splits delivery.splits)

lemma fail_record_new_events:
  assumes "queue_ctor ev (queues_so_far s) = None"
  shows "new_events s (world_of (fail_record w ev r s)) =
     QueueBuilt (queues_so_far s) (fail_queue_cfg w) #
       (case broker ev (queues_so_far s) of
          SendRaises e \<Rightarrow> []
        | AckAfter d \<Rightarrow>
            [Sent (queues_so_far s) (get_fail_topic w) (rec_value r) (recover_key ev r)]
        | GetRaises e \<Rightarrow>
            [Sent (queues_so_far s) (get_fail_topic w) (rec_value r) (recover_key ev r)])"
  using assms by (simp add: fail_record_def Let_def split: delivery.splits)

text \<open>
  Claim C3. The loop of a record ends with a decision equal to \<^verbatim>\<open>-1\<close>. Then the rest
  of the record's handling is the forwarder and what its result allows: \<^verbatim>\<open>commit\<close> is
  called if and only if the forwarder returned \<^verbatim>\<open>True\<close>, which it does exactly when the
  queue was built and the broker acknowledged within the wait; the commit then comes
  after the queue and the send. When the forwarder returns \<^verbatim>\<open>False\<close> or raises, nothing
  is committed.
\<close>

theorem dead_letter_commit_iff_forwarded:
  assumes "attempt_loop w ev r (PInt 0) 0 s = Some (Returns (c, n) s1)"
    and "py_eq_int c (- 1)"
  shows "\<exists>out. handle_record w ev r s = Some out \<and>
           (list_ex is_commit_event (new_events s1 (world_of out)) \<longleftrightarrow>
              (\<exists>s2. fail_record w ev r s1 = Returns True s2)) \<and>
           ((\<exists>s2. fail_record w ev r s1 = Returns True s2) \<longleftrightarrow>
              queue_ctor ev (queues_so_far s1) = None \<and>
              (\<exists>d. broker ev (queues_so_far s1) = AckAfter d \<and> int d \<le> ack_timeout w)) \<and>
           (\<forall>s2. fail_record w ev r s1 = Returns True s2 \<longrightarrow>
              out = Returns () (emit (Committed r) s2) \<and>
              new_events s1 (world_of out) =
                [QueueBuilt (queues_so_far s1) (fail_queue_cfg w),
                 Sent (queues_so_far s1) (get_fail_topic w) (rec_value r) (recover_key ev r),
                 Committed r]) \<and>
           (\<forall>s2. fail_record w ev r s1 = Returns False s2 \<longrightarrow> out = Returns () s2) \<and>
           (\<forall>e s2. fail_record w ev r s1 = Raises e s2 \<longrightarrow> out = Raises e s2)"
proof -
  let ?out = "commit_or_fail w ev r c s1"
  have h: "handle_record w ev r s = Some ?out"
    using assms(1) by (simp add: handle_record_def)
  obtain evs where evs: "trace (world_of (fail_record w ev r s1)) = trace s1 @ evs"
      "list_all is_forward_event evs"
    using fail_record_events by blast
  have nc: "\<not> list_ex is_commit_event evs"
    using evs(2) by (induction evs) (auto elim: is_forward_event.elims)
  have t: "out' = Returns () (emit (Committed r) s2) \<and>
           new_events s1 (world_of out') =
                [QueueBuilt (queues_so_far s1) (fail_queue_cfg w),
                 Sent (queues_so_far s1) (get_fail_topic w) (rec_value r) (recover_key ev r),
                 Committed r]"
    if "fail_record w ev r s1 = Returns True s2" "out' = ?out" for s2 out'
    using that assms(2) fail_record_true_world [OF that(1)]
    by (simp add: commit_or_fail_def)
  have f: "?out = Returns () s2" if "fail_record w ev r s1 = Returns False s2" for s2
    using that assms(2) by (simp add: commit_or_fail_def)
  have x: "?out = Raises e s2" if "fail_record w ev r s1 = Raises e s2" for e s2
    using that assms(2) by (simp add: commit_or_fail_def)
  have c: "list_ex is_commit_event (new_events s1 (world_of ?out)) \<longleftrightarrow>
              (\<exists>s2. fail_record w ev r s1 = Returns True s2)"
  proof (cases "fail_record w ev r s1")
    case (Raises e s2)
    with x evs nc show ?thesis by simp
  next
    case (Returns ok s2)
    show ?thesis
    proof (cases ok)
      case True
      with Returns have fr: "fail_record w ev r s1 = Returns True s2" by simp
      from t [OF fr refl]
      have "new_events s1 (world_of ?out) =
                [QueueBuilt (queues_so_far s1) (fail_queue_cfg w),
                 Sent (queues_so_far s1) (get_fail_topic w) (rec_value r) (recover_key ev r),
                 Committed r]" ..
      then have "list_ex is_commit_event (new_events s1 (world_of ?out))" by simp
      with fr show ?thesis by blast
    next
      case False
      with Returns f [of s2] evs nc show ?thesis by simp
    qed
  qed
  show ?thesis
    using h c t f x fail_record_true_iff [of w ev r s1] by blast
qed

theorem dead_letter_commit_iff_forwarded_witness:
  "attempt_loop plain_worker test_env (record_of ''junk'') (PInt 0) 0 started =
     Some (Returns (PInt (- 1), 1) (emit (Attempt (record_of ''junk'') 0) started)) \<and>
   py_eq_int (PInt (- 1)) (- 1) \<and>
   handle_record plain_worker test_env (record_of ''junk'') started =
     Some (Returns ()
       \<lparr>trace = [PoolCreated 1, Attempt (record_of ''junk'') 0,
                 QueueBuilt 0 (fail_queue_cfg plain_worker),
                 Sent 0 ''default.failed'' ''junk'' PNone,
                 Committed (record_of ''junk'')],
        pool = Some 1\<rparr>)"
proof -
  have l: "attempt_loop plain_worker test_env (record_of ''junk'') (PInt 0) 0 started =
     Some (Returns (PInt (- 1), 1) (emit (Attempt (record_of ''junk'') 0) started))"
    by (simp add: attempt_loop.simps consume_record_def example_defs)
  have p: "py_eq_int (PInt (- 1)) (- 1)" by simp
  have f: "fail_record plain_worker test_env (record_of ''junk'')
             (emit (Attempt (record_of ''junk'') 0) started) =
           Returns True
             \<lparr>trace = [PoolCreated 1, Attempt (record_of ''junk'') 0,
                 QueueBuilt 0 (fail_queue_cfg plain_worker),
                 Sent 0 ''default.failed'' ''junk'' PNone],
              pool = Some 1\<rparr>"
    by (simp add: fail_record_def get_fail_topic_def recover_key_def ack_timeout_def
        queues_so_far_def emit_def example_defs)
  from dead_letter_commit_iff_forwarded [OF l p] f
  have "handle_record plain_worker test_env (record_of ''junk'') started =
     Some (Returns ()
       \<lparr>trace = [PoolCreated 1, Attempt (record_of ''junk'') 0,
                 QueueBuilt 0 (fail_queue_cfg plain_worker),
                 Sent 0 ''default.failed'' ''junk'' PNone,
                 Committed (record_of ''junk'')],
        pool = Some 1\<rparr>)"
    by (auto simp: emit_def)
  with l p show ?thesis by simp
qed

text \<open>
  Claim C8. When the queue is built and the send does not raise, the forwarder sends
  the bytes of the record as they are to the topic \<^verbatim>\<open>self._topic + '.failed'\<close>, the
  topic of the queue too. The key is the \<^verbatim>\<open>key\<close> of what the payload loads to, and
  \<^verbatim>\<open>None\<close> when the payload does not load or the object has no such attribute; the
  send happens all the same.
\<close>

theorem forward_verbatim:
  assumes "queue_ctor ev (queues_so_far s) = None"
    and "case broker ev (queues_so_far s) of
           SendRaises e \<Rightarrow> False | AckAfter d \<Rightarrow> True | GetRaises e \<Rightarrow> True"
  shows "new_events s (world_of (fail_record w ev r s)) =
           [QueueBuilt (queues_so_far s) (fail_queue_cfg w),
            Sent (queues_so_far s) (w_topic w @ ''.failed'') (rec_value r) (recover_key ev r)] \<and>
         q_topic (fail_queue_cfg w) = w_topic w @ ''.failed'' \<and>
         recover_key ev r =
           (case dill_loads ev (rec_value r) of
              Inl e \<Rightarrow> PNone
            | Inr (JobObj j) \<Rightarrow> job_key j
            | Inr (OtherObj None) \<Rightarrow> PNone
            | Inr (OtherObj (Some k)) \<Rightarrow> k)"
proof -
  have a: "new_events s (world_of (fail_record w ev r s)) =
           [QueueBuilt (queues_so_far s) (fail_queue_cfg w),
            Sent (queues_so_far s) (w_topic w @ ''.failed'') (rec_value r) (recover_key ev r)]"
    using fail_record_new_events [OF assms(1), of w r] assms(2)
    by (simp add: get_fail_topic_def split: delivery.splits)
  have b: "q_topic (fail_queue_cfg w) = w_topic w @ ''.failed''"
    by (simp add: fail_queue_cfg_def get_fail_topic_def)
  have c: "recover_key ev r =
           (case dill_loads ev (rec_value r) of
              Inl e \<Rightarrow> PNone
            | Inr (JobObj j) \<Rightarrow> job_key j
            | Inr (OtherObj None) \<Rightarrow> PNone
            | Inr (OtherObj (Some k)) \<Rightarrow> k)"
    by (simp add: recover_key_def split: sum.splits pyobj.splits option.splits)
  from a b c show ?thesis by simp
qed

theorem forward_verbatim_witness:
  "new_events (emit (Attempt (record_of ''add'') 0) started)
     (world_of (fail_record plain_worker test_env (record_of ''add'')
        (emit (Attempt (record_of ''add'') 0) started))) =
     [QueueBuilt 0 (fail_queue_cfg plain_worker),
      Sent 0 ''default.failed'' ''add'' (PStr ''k1'')] \<and>
   recover_key test_env (record_of ''junk'') = PNone"
  using forward_verbatim [of test_env "emit (Attempt (record_of ''add'') 0) started"
      plain_worker "record_of ''add''"]
    forward_verbatim [of test_env "emit (Attempt (record_of ''add'') 0) started"
      plain_worker "record_of ''junk''"]
  by (simp add: queues_so_far_def example_defs)

text \<open>
  Claim C9, as stated, fails: two records forwarded by one worker are sent on two
  queues, each built for its record.
\<close>

theorem queue_per_forward_counterexample:
  "run_records plain_worker test_env [record_of ''junk'', record_of ''obj''] started =
     Some (Returns ()
       \<lparr>trace = [PoolCreated 1,
                 Attempt (record_of ''junk'') 0,
                 QueueBuilt 0 (fail_queue_cfg plain_worker),
                 Sent 0 ''default.failed'' ''junk'' PNone,
                 Committed (record_of ''junk''),
                 Attempt (record_of ''obj'') 0,
                 QueueBuilt 1 (fail_queue_cfg plain_worker),
                 Sent 1 ''default.failed'' ''obj'' PNone],
        pool = Some 1\<rparr>)"
  by (simp add: handle_record_def attempt_loop.simps consume_record_def commit_or_fail_def
      fail_record_def get_fail_topic_def recover_key_def ack_timeout_def
      queues_so_far_def emit_def example_defs)

text \<open>
  Claim C9, amended. The producer is built again on each forwarding attempt: every
  call of the forwarder in which the constructor of \<^verbatim>\<open>Queue\<close> returns builds one more
  queue, and what it sends it sends on the producer of that new queue, not on one built
  for an earlier forward.
\<close>

theorem queue_per_forward:
  assumes "queue_ctor ev (queues_so_far s) = None"
  shows "queues_so_far (world_of (fail_record w ev r s)) = Suc (queues_so_far s) \<and>
         (\<exists>rest. new_events s (world_of (fail_record w ev r s)) =
                  QueueBuilt (queues_so_far s) (fail_queue_cfg w) # rest \<and>
                (rest = [] \<or>
                 rest = [Sent (queues_so_far s) (get_fail_topic w) (rec_value r)
                           (recover_key ev r)]))"
proof -
  have "queues_so_far (world_of (fail_record w ev r s)) = Suc (queues_so_far s)"
    using assms by (simp add: fail_record_def Let_def split: delivery.splits)
  then show ?thesis
    using fail_record_new_events [OF assms, of w r] by (simp split: delivery.splits)
qed

theorem queue_per_forward_witness:
  "queues_so_far started = 0 \<and>
   queues_so_far (world_of (fail_record plain_worker test_env (record_of ''junk'') started)) = 1 \<and>
   queues_so_far (world_of (fail_record plain_worker test_env (record_of ''obj'')
     (world_of (fail_record plain_worker test_env (record_of ''junk'') started)))) = 2"
  using queue_per_forward [of test_env started plain_worker "record_of ''junk''"]
    queue_per_forward [of test_env
      "world_of (fail_record plain_worker test_env (record_of ''junk'') started)"
      plain_worker "record_of ''obj''"]
  by (simp add: queues_so_far_def example_defs)

section \<open>Retries\<close>

lemma decision_of_eq: "decision_of v = (if v = PNone then PInt 1 else v)"
  by (cases v) simp_all

lemma py_eq_decision [simp]: "py_eq_int v 0 \<Longrightarrow> decision_of v = v"
  by (cases v) simp_all

text \<open>One try of a valid job under a worker with a pool and a callback that returns.\<close>

lemma one_try:
  assumes "dill_loads ev (rec_value r) = Inr (JobObj j)" and "valid_job (JobObj j)"
    and "func_repr ev (job_func j) (job_args j) (job_kwargs j) = None"
    and "w_callback w = Some cb" and "pool s = Some p"
    and "run_ok w ev j (run_func ev (executions_so_far s) j)"
    and "\<forall>a. cb_try_count a = tc \<longrightarrow> cb (callbacks_so_far s) a = CbReturns v"
  shows "\<exists>s' m a. consume_record w ev r tc s = Some (Returns (decision_of v) s') \<and>
           trace s' = trace s @ [Attempt r tc, Executed j m, CallbackCalled a] \<and>
           cb_try_count a = tc \<and> pool s' = pool s"
proof -
  let ?s0 = "emit (Attempt r tc) s"
  have "\<exists>res m. run_job w ev j ?s0 = Some (res, emit (Executed j m) ?s0) \<and> classified res \<and>
          outcome_logged ev res = None"
    using assms(5,6)
    by (cases "run_func ev (executions_so_far s) j")
      (auto simp: run_job_def split: option.splits)
  then obtain res m where rj: "run_job w ev j ?s0 = Some (res, emit (Executed j m) ?s0)"
    and cl: "classified res" and lg: "outcome_logged ev res = None" by blast
  let ?a = "outcome_args ev j tc res"
  let ?s1 = "emit (Executed j m) ?s0"
  have tcq: "cb_try_count ?a = tc" by (cases res) simp_all
  with assms(7) have "cb (callbacks_so_far ?s1) ?a = CbReturns v" by simp
  then have "exec_callback w ev ?a ?s1 = Returns (decision_of v) (emit (CallbackCalled ?a) ?s1)"
    using assms(4) by (simp add: exec_callback_def decision_of_eq)
  with consume_record_valid [OF assms(1-3) rj cl lg]
  have "consume_record w ev r tc s = Some (Returns (decision_of v) (emit (CallbackCalled ?a) ?s1))"
    by simp
  with tcq show ?thesis by auto
qed

lemma attempt_try_counts_append [simp]:
  "attempt_try_counts (xs @ ys) = attempt_try_counts xs @ attempt_try_counts ys"
  by (induction xs rule: attempt_try_counts.induct) simp_all

lemma callback_try_counts_append [simp]:
  "callback_try_counts (xs @ ys) = callback_try_counts xs @ callback_try_counts ys"
  by (induction xs rule: callback_try_counts.induct) simp_all

lemma retries_then_decision:
  assumes "dill_loads ev (rec_value r) = Inr (JobObj j)" and "valid_job (JobObj j)"
    and "func_repr ev (job_func j) (job_args j) (job_kwargs j) = None"
    and "w_callback w = Some cb"
  shows "pool s = Some p \<Longrightarrow>
    (\<forall>i<Suc k. run_ok w ev j (run_func ev (executions_so_far s + i) j)) \<Longrightarrow>
    (\<forall>i<Suc k. \<forall>a. cb_try_count a = tc + i \<longrightarrow>
           cb (callbacks_so_far s + i) a = CbReturns (v (tc + i))) \<Longrightarrow>
    (\<forall>i<k. py_eq_int (v (tc + i)) 0) \<Longrightarrow>
    \<not> py_eq_int (decision_of (v (tc + k))) 0 \<Longrightarrow>
    \<exists>s' evs. attempt_loop w ev r (PInt 0) tc s =
              Some (Returns (decision_of (v (tc + k)), tc + Suc k) s') \<and>
            trace s' = trace s @ evs \<and>
            attempt_try_counts evs = [tc..<tc + Suc k] \<and>
            callback_try_counts evs = [tc..<tc + Suc k] \<and>
            length (filter is_executed_event evs) = Suc k \<and>
            list_all is_attempt_event evs"
proof (induction k arbitrary: tc s)
  case 0
  have r0: "run_ok w ev j (run_func ev (executions_so_far s) j)"
    using 0(2) [rule_format, of 0] by simp
  have c0: "\<forall>a. cb_try_count a = tc \<longrightarrow> cb (callbacks_so_far s) a = CbReturns (v tc)"
    using 0(3) [rule_format, of 0] by simp
  from one_try [OF assms(1-4) 0(1) r0 c0]
  obtain s' m a where c: "consume_record w ev r tc s = Some (Returns (decision_of (v tc)) s')"
    and t: "trace s' = trace s @ [Attempt r tc, Executed j m, CallbackCalled a]"
    and a: "cb_try_count a = tc"
    by auto
  have "attempt_loop w ev r (PInt 0) tc s = Some (Returns (decision_of (v tc), Suc tc) s')"
    using loop_step [OF _ c, of "PInt 0"] 0(5) by (simp add: loop_stop)
  with t a show ?case by simp
next
  case (Suc k)
  have r0: "run_ok w ev j (run_func ev (executions_so_far s) j)"
    using Suc.prems(2) [rule_format, of 0] by simp
  have c0: "\<forall>a. cb_try_count a = tc \<longrightarrow> cb (callbacks_so_far s) a = CbReturns (v tc)"
    using Suc.prems(3) [rule_format, of 0] by simp
  from one_try [OF assms(1-4) Suc.prems(1) r0 c0]
  obtain s1 m a where c: "consume_record w ev r tc s = Some (Returns (decision_of (v tc)) s1)"
    and t: "trace s1 = trace s @ [Attempt r tc, Executed j m, CallbackCalled a]"
    and a: "cb_try_count a = tc" and p: "pool s1 = pool s"
    by auto
  have z: "py_eq_int (v tc) 0" using Suc.prems(4) by auto
  have ex: "executions_so_far s1 = Suc (executions_so_far s)"
    using t by (simp add: executions_so_far_def)
  have cs: "callbacks_so_far s1 = Suc (callbacks_so_far s)"
    using t by (simp add: callbacks_so_far_def)
  have step: "attempt_loop w ev r (PInt 0) tc s = attempt_loop w ev r (v tc) (Suc tc) s1"
    using loop_step [OF _ c, of "PInt 0"] z by simp
  have h1: "pool s1 = Some p" using p Suc.prems(1) by simp
  have h2: "\<forall>i<Suc k. run_ok w ev j (run_func ev (executions_so_far s1 + i) j)"
    using Suc.prems(2) ex by auto
  have h3: "\<forall>i<Suc k. \<forall>a. cb_try_count a = Suc tc + i \<longrightarrow>
           cb (callbacks_so_far s1 + i) a = CbReturns (v (Suc tc + i))"
    using Suc.prems(3) cs by auto
  have h4: "\<forall>i<k. py_eq_int (v (Suc tc + i)) 0"
    using Suc.prems(4) by auto
  have h5: "\<not> py_eq_int (decision_of (v (Suc tc + k))) 0"
    using Suc.prems(5) by simp
  from Suc.IH [OF h1 h2 h3 h4 h5]
  obtain s' evs where l: "attempt_loop w ev r (PInt 0) (Suc tc) s1 =
              Some (Returns (decision_of (v (Suc tc + k)), Suc tc + Suc k) s')"
    and t': "trace s' = trace s1 @ evs"
    and ac: "attempt_try_counts evs = [Suc tc..<Suc tc + Suc k]"
    and cc: "callback_try_counts evs = [Suc tc..<Suc tc + Suc k]"
    and ec: "length (filter is_executed_event evs) = Suc k"
    and ae: "list_all is_attempt_event evs"
    by blast
  have same: "attempt_loop w ev r (v tc) (Suc tc) s1 = attempt_loop w ev r (PInt 0) (Suc tc) s1"
    using z by (subst (1 2) attempt_loop.simps) simp
  have up: "[tc..<tc + Suc (Suc k)] = tc # [Suc tc..<Suc tc + Suc k]"
    by (simp add: upt_rec)
  let ?evs = "[Attempt r tc, Executed j m, CallbackCalled a] @ evs"
  have "attempt_loop w ev r (PInt 0) tc s =
              Some (Returns (decision_of (v (tc + Suc k)), tc + Suc (Suc k)) s')"
    using step same l by simp
  moreover have "trace s' = trace s @ ?evs" using t t' by simp
  moreover have "attempt_try_counts ?evs = [tc..<tc + Suc (Suc k)]"
    using ac up by simp
  moreover have "callback_try_counts ?evs = [tc..<tc + Suc (Suc k)]"
    using cc a up by simp
  moreover have "length (filter is_executed_event ?evs) = Suc (Suc k)"
    using ec by simp
  moreover have "list_all is_attempt_event ?evs" using ae by simp
  ultimately show ?case by blast
qed



text \<open>
  The other end of the retry loop: a callback that answers every call with a value
  equal to \<^verbatim>\<open>0\<close> keeps the loop going for ever. No run of the loop that starts on a
  retry decision returns, so the handling of the record never returns and its offset
  is never committed.
\<close>

lemma always_retry_no_result:
  assumes valid: "dill_loads ev (rec_value r) = Inr (JobObj j)" "valid_job (JobObj j)"
      "func_repr ev (job_func j) (job_args j) (job_kwargs j) = None"
    and cb: "w_callback w = Some cb"
    and sig: "\<forall>n a. cb n a = CbReturns (v n)" "\<forall>n. py_eq_int (v n) 0"
    and run: "\<forall>n. run_ok w ev j (run_func ev n j)"
    and loop: "attempt_loop w ev r c tc s = Some out"
  shows "\<not> (pool s = Some p \<and> py_eq_int c 0)"
proof -
  have "w = w \<and> ev = ev \<and> r = r \<longrightarrow> \<not> (pool s = Some p \<and> py_eq_int c 0)"
  proof (rule attempt_loop.raw_induct
      [where P = "\<lambda>w' ev' r' c tc s out.
          w' = w \<and> ev' = ev \<and> r' = r \<longrightarrow> \<not> (pool s = Some p \<and> py_eq_int c 0)",
       OF _ loop])
  fix lp w' ev' r' c tc s out
  assume IH: "\<And>w' ev' r' c tc s out. lp w' ev' r' c tc s = Some out \<Longrightarrow>
         w' = w \<and> ev' = ev \<and> r' = r \<longrightarrow> \<not> (pool s = Some p \<and> py_eq_int c 0)"
    and body: "(if py_eq_int c 0
           then case consume_record w' ev' r' tc s of None \<Rightarrow> None
                | Some (Returns c s') \<Rightarrow> lp w' ev' r' c (tc + 1) s'
                | Some (Raises e s') \<Rightarrow> Some (Raises e s')
           else Some (Returns (c, tc) s)) = Some out"
  show "w' = w \<and> ev' = ev \<and> r' = r \<longrightarrow> \<not> (pool s = Some p \<and> py_eq_int c 0)"
  proof (intro impI notI)
    assume eq: "w' = w \<and> ev' = ev \<and> r' = r" and h: "pool s = Some p \<and> py_eq_int c 0"
    have r0: "run_ok w ev j (run_func ev (executions_so_far s) j)"
      using run by simp
    have c0: "\<forall>a. cb_try_count a = tc \<longrightarrow>
        cb (callbacks_so_far s) a = CbReturns (v (callbacks_so_far s))"
      using sig(1) by simp
    from one_try [OF valid cb _ r0 c0] h
    obtain s1 where c: "consume_record w ev r tc s =
        Some (Returns (decision_of (v (callbacks_so_far s))) s1)" and p: "pool s1 = pool s"
      by blast
    have z: "py_eq_int (decision_of (v (callbacks_so_far s))) 0"
      using sig(2) by simp
    from body h eq c have "lp w ev r (decision_of (v (callbacks_so_far s))) (tc + 1) s1 = Some out"
      by simp
    from IH [OF this] p h z show False by simp
  qed
  qed
  then show ?thesis by simp
qed

lemma always_retry_never_returns:
  assumes "dill_loads ev (rec_value r) = Inr (JobObj j)" and "valid_job (JobObj j)"
    and "func_repr ev (job_func j) (job_args j) (job_kwargs j) = None"
    and "w_callback w = Some cb"
    and "\<forall>n a. cb n a = CbReturns (v n)" and "\<forall>n. py_eq_int (v n) 0"
    and "\<forall>n. run_ok w ev j (run_func ev n j)"
    and "pool s = Some p"
  shows "handle_record w ev r s = None"
proof (cases "attempt_loop w ev r (PInt 0) 0 s")
  case None
  then show ?thesis by (simp add: handle_record_def)
next
  case (Some out)
  from always_retry_no_result [OF assms(1-7) Some, of p] assms(8) show ?thesis by simp
qed

section \<open>The try count\<close>

lemma exec_callback_trace:
  "trace (world_of (exec_callback w ev a s)) =
     trace s @ (if w_callback w = None then [] else [CallbackCalled a])"
  by (simp add: exec_callback_def split: option.splits cb_reply.splits)

lemma exec_callback_without:
  "w_callback w = None \<Longrightarrow> exec_callback w ev a s = Returns (PInt 1) s"
  by (simp add: exec_callback_def)

lemma run_job_counts:
  assumes "run_job w ev j s = Some (res, s1)"
  shows "\<exists>evs. trace s1 = trace s @ evs \<and> attempt_try_counts evs = [] \<and>
               callback_try_counts evs = []"
  using assms
  by (auto simp: run_job_def split: option.splits behaviour.splits if_splits)

text \<open>
  How a try that returns or raises came about: the payload was no valid job; or
  \<^verbatim>\<open>func_repr\<close> raised; or something was raised after the call of the callable and
  before the callback; or the try is the call of the callback, with the try's own
  \<^verbatim>\<open>try_count\<close>.
\<close>

lemma consume_record_shape:
  assumes "consume_record w ev r tc s = Some out"
  shows "(\<not> (case dill_loads ev (rec_value r) of Inl e \<Rightarrow> False | Inr obj \<Rightarrow> valid_job obj) \<and>
          out = Returns (PInt (- 1)) (emit (Attempt r tc) s)) \<or>
         ((case dill_loads ev (rec_value r) of Inl e \<Rightarrow> False | Inr obj \<Rightarrow> valid_job obj) \<and>
          ((\<exists>e. out = Raises e (emit (Attempt r tc) s)) \<or>
           (\<exists>j res s1 e. run_job w ev j (emit (Attempt r tc) s) = Some (res, s1) \<and>
              out = Raises e s1) \<or>
           (\<exists>j res s1 a. run_job w ev j (emit (Attempt r tc) s) = Some (res, s1) \<and>
              cb_try_count a = tc \<and> out = exec_callback w ev a s1)))"
proof (cases "dill_loads ev (rec_value r)")
  case (Inl e)
  with assms show ?thesis by (auto simp: consume_record_def Let_def)
next
  case (Inr obj)
  show ?thesis
  proof (cases "valid_job obj")
    case False
    with Inr assms show ?thesis by (auto simp: consume_record_def Let_def)
  next
    case True
    then obtain j where obj: "obj = JobObj j" by (cases obj) auto
    show ?thesis
    proof (cases "func_repr ev (job_func j) (job_args j) (job_kwargs j)")
      case (Some e)
      have v: "case dill_loads ev (rec_value r) of Inl e \<Rightarrow> False | Inr obj \<Rightarrow> valid_job obj"
        using Inr True by simp
      have "out = Raises e (emit (Attempt r tc) s)"
        using Some Inr obj True assms by (simp add: consume_record_def Let_def)
      with v show ?thesis by blast
    next
      case None
      let ?s0 = "emit (Attempt r tc) s"
      from assms Inr obj True None obtain res s1 where rj: "run_job w ev j ?s0 = Some (res, s1)"
        by (auto simp: consume_record_def Let_def split: option.splits)
      have "(\<exists>e. out = Raises e s1) \<or> out = exec_callback w ev (outcome_args ev j tc res) s1"
        using assms Inr obj True None rj
        by (cases res) (auto simp: consume_record_def Let_def split: if_splits option.splits)
      moreover have "cb_try_count (outcome_args ev j tc res) = tc" by (cases res) simp_all
      ultimately have d: "(\<exists>e. out = Raises e s1) \<or>
          (\<exists>a. cb_try_count a = tc \<and> out = exec_callback w ev a s1)" by blast
      have v: "case dill_loads ev (rec_value r) of Inl e \<Rightarrow> False | Inr obj \<Rightarrow> valid_job obj"
        using Inr True by simp
      from v rj d show ?thesis by blast
    qed
  qed
qed

text \<open>
  One try adds its own entry with its \<^verbatim>\<open>try_count\<close>, and at most one call of the
  callback, with the same \<^verbatim>\<open>try_count\<close>. A try that returns has called the callback if
  the tries reach it; if they do not, it does not return a retry.
\<close>

lemma consume_record_tries:
  assumes "consume_record w ev r tc s = Some out"
  shows "\<exists>evs. trace (world_of out) = trace s @ evs \<and> attempt_try_counts evs = [tc] \<and>
           (callback_try_counts evs = [tc] \<or> callback_try_counts evs = []) \<and>
           (\<forall>c s'. out = Returns c s' \<longrightarrow>
              callback_try_counts evs = (if calls_back w ev r then [tc] else []) \<and>
              (\<not> calls_back w ev r \<longrightarrow> \<not> py_eq_int c 0))"
proof -
  let ?valid = "case dill_loads ev (rec_value r) of Inl e \<Rightarrow> False | Inr obj \<Rightarrow> valid_job obj"
  let ?s0 = "emit (Attempt r tc) s"
  from consume_record_shape [OF assms]
  consider (bad) "\<not> ?valid" "out = Returns (PInt (- 1)) ?s0"
    | (repr) e where "?valid" "out = Raises e ?s0"
    | (raised) j res s1 e where "?valid" "run_job w ev j ?s0 = Some (res, s1)" "out = Raises e s1"
    | (called) j res s1 a where "?valid" "run_job w ev j ?s0 = Some (res, s1)"
        "cb_try_count a = tc" "out = exec_callback w ev a s1"
    by blast
  then show ?thesis
  proof cases
    case bad
    then show ?thesis by (auto simp: calls_back_def intro!: exI [of _ "[Attempt r tc]"])
  next
    case repr
    then show ?thesis by (auto intro!: exI [of _ "[Attempt r tc]"])
  next
    case raised
    from run_job_counts [OF raised(2)] obtain evs1 where
      "trace s1 = trace ?s0 @ evs1" "attempt_try_counts evs1 = []"
      "callback_try_counts evs1 = []" by blast
    with raised(3) show ?thesis
      by (auto intro!: exI [of _ "Attempt r tc # evs1"])
  next
    case called
    from run_job_counts [OF called(2)] obtain evs1 where
      e1: "trace s1 = trace ?s0 @ evs1" "attempt_try_counts evs1 = []"
        "callback_try_counts evs1 = []" by blast
    let ?evs = "Attempt r tc # evs1 @ (if w_callback w = None then [] else [CallbackCalled a])"
    have t: "trace (world_of out) = trace s @ ?evs"
      using called(4) e1(1) by (simp add: exec_callback_trace)
    have cb: "calls_back w ev r \<longleftrightarrow> w_callback w \<noteq> None"
      using called(1) by (simp add: calls_back_def)
    have a: "attempt_try_counts ?evs = [tc]" using e1(2) by simp
    have c: "callback_try_counts ?evs = (if calls_back w ev r then [tc] else [])"
      using e1(3) called(3) cb by simp
    have z: "\<not> py_eq_int c' 0" if "out = Returns c' s'" "\<not> calls_back w ev r" for c' s'
      using that called(4) cb exec_callback_without [of w ev a s1] by auto
    from t a c z show ?thesis by (intro exI [of _ ?evs]) auto
  qed
qed

text \<open>The cut-off loop goes on from where it stood.\<close>

lemma bounded_loop_more:
  "bounded_loop k w ev r c tc s = More c' n s' \<Longrightarrow>
   bounded_loop (k + m) w ev r c tc s = bounded_loop m w ev r c' n s'"
proof (induction k arbitrary: c tc s)
  case 0
  then show ?case by (cases m) (auto split: if_splits)
next
  case (Suc k)
  then show ?case
    by (auto split: if_splits option.splits outcome.splits)
qed

text \<open>The cut-off loop and the loop agree on every run that ends.\<close>

lemma bounded_loop_sound:
  "(bounded_loop k w ev r c tc s = Ended c' n s' \<longrightarrow>
      attempt_loop w ev r c tc s = Some (Returns (c', n) s')) \<and>
   (bounded_loop k w ev r c tc s = Threw e s' \<longrightarrow>
      attempt_loop w ev r c tc s = Some (Raises e s')) \<and>
   (bounded_loop k w ev r c tc s = Stuck \<longrightarrow> attempt_loop w ev r c tc s = None)"
proof (induction k arbitrary: c tc s)
  case 0
  show ?case by (auto simp: loop_stop)
next
  case (Suc k)
  show ?case
  proof (cases "py_eq_int c 0")
    case False
    then show ?thesis by (auto simp: loop_stop)
  next
    case True
    show ?thesis
    proof (cases "consume_record w ev r tc s")
      case None
      with True show ?thesis by (subst attempt_loop.simps) simp
    next
      case (Some o1)
      show ?thesis
      proof (cases o1)
        case (Raises e1 s1)
        with Some True show ?thesis by (subst attempt_loop.simps) simp
      next
        case (Returns c1 s1)
        with Some have cr: "consume_record w ev r tc s = Some (Returns c1 s1)" by simp
        have b: "bounded_loop (Suc k) w ev r c tc s = bounded_loop k w ev r c1 (tc + 1) s1"
          using True cr by simp
        show ?thesis
          unfolding b loop_step [OF True cr] using Suc.IH [of c1 "tc + 1" s1] by simp
      qed
    qed
  qed
qed

lemma bounded_loop_complete:
  assumes "attempt_loop w ev r c tc s = Some out"
  shows "\<exists>k. bounded_loop k w ev r c tc s = as_result out"
proof (rule attempt_loop.raw_induct
    [where P = "\<lambda>w ev r c tc s out. \<exists>k. bounded_loop k w ev r c tc s = as_result out",
     OF _ assms])
  fix lp w ev r c tc s out
  assume IH: "\<And>w ev r c tc s out. lp w ev r c tc s = Some out \<Longrightarrow>
         \<exists>k. bounded_loop k w ev r c tc s = as_result out"
    and body: "(if py_eq_int c 0
           then case consume_record w ev r tc s of None \<Rightarrow> None
                | Some (Returns c s') \<Rightarrow> lp w ev r c (tc + 1) s'
                | Some (Raises e s') \<Rightarrow> Some (Raises e s')
           else Some (Returns (c, tc) s)) = Some out"
  show "\<exists>k. bounded_loop k w ev r c tc s = as_result out"
  proof (cases "py_eq_int c 0")
    case False
    with body have "bounded_loop 0 w ev r c tc s = as_result out" by auto
    then show ?thesis ..
  next
    case True
    show ?thesis
    proof (cases "consume_record w ev r tc s")
      case None
      with True body show ?thesis by simp
    next
      case (Some o1)
      show ?thesis
      proof (cases o1)
        case (Raises e1 s1)
        with Some True body have "bounded_loop (Suc 0) w ev r c tc s = as_result out" by auto
        then show ?thesis ..
      next
        case (Returns c1 s1)
        with Some True body have "lp w ev r c1 (tc + 1) s1 = Some out" by simp
        from IH [OF this] obtain k where "bounded_loop k w ev r c1 (tc + 1) s1 = as_result out" ..
        with Some True Returns have "bounded_loop (Suc k) w ev r c tc s = as_result out" by simp
        then show ?thesis ..
      qed
    qed
  qed
qed

text \<open>
  What the loop has done after any number of rounds, from any state it is entered in:
  the tries are numbered from the \<^verbatim>\<open>try_count\<close> it was entered with, one by one, and
  so are the calls of the callback.
\<close>

lemma bounded_loop_tries:
  "(\<forall>c' n s'. bounded_loop k w ev r c tc s = More c' n s' \<longrightarrow>
      n = tc + k \<and> py_eq_int c' 0 \<and>
      (\<exists>evs. trace s' = trace s @ evs \<and> attempt_try_counts evs = [tc..<n] \<and>
             callback_try_counts evs = (if calls_back w ev r then [tc..<n] else []))) \<and>
   (\<forall>c' n s'. bounded_loop k w ev r c tc s = Ended c' n s' \<longrightarrow>
      tc \<le> n \<and> n \<le> tc + k \<and> (py_eq_int c 0 \<longrightarrow> tc < n) \<and>
      (\<exists>evs. trace s' = trace s @ evs \<and> attempt_try_counts evs = [tc..<n] \<and>
             callback_try_counts evs = (if calls_back w ev r then [tc..<n] else []))) \<and>
   (\<forall>e s'. bounded_loop k w ev r c tc s = Threw e s' \<longrightarrow>
      (\<exists>n evs. tc < n \<and> n \<le> tc + k \<and> trace s' = trace s @ evs \<and>
         attempt_try_counts evs = [tc..<n] \<and>
         (callback_try_counts evs = [tc..<n] \<or> callback_try_counts evs = [tc..<n - 1])))"
proof (induction k arbitrary: c tc s)
  case 0
  show ?case by (auto split: if_splits)
next
  case (Suc k)
  show ?case
  proof (cases "py_eq_int c 0")
    case False
    then show ?thesis by auto
  next
    case True
    show ?thesis
    proof (cases "consume_record w ev r tc s")
      case None
      with True show ?thesis by simp
    next
      case (Some o1)
      from consume_record_tries [OF Some] obtain evs1 where
        t1: "trace (world_of o1) = trace s @ evs1" and a1: "attempt_try_counts evs1 = [tc]"
        and c1: "callback_try_counts evs1 = [tc] \<or> callback_try_counts evs1 = []"
        and r1: "\<forall>c s'. o1 = Returns c s' \<longrightarrow>
              callback_try_counts evs1 = (if calls_back w ev r then [tc] else []) \<and>
              (\<not> calls_back w ev r \<longrightarrow> \<not> py_eq_int c 0)"
        by blast
      show ?thesis
      proof (cases o1)
        case (Raises e1 s1)
        with Some True have b: "bounded_loop (Suc k) w ev r c tc s = Threw e1 s1" by simp
        have "tc < Suc tc \<and> Suc tc \<le> tc + Suc k \<and> trace s1 = trace s @ evs1 \<and>
            attempt_try_counts evs1 = [tc..<Suc tc] \<and>
            (callback_try_counts evs1 = [tc..<Suc tc] \<or>
             callback_try_counts evs1 = [tc..<Suc tc - 1])"
          using t1 a1 c1 Raises by auto
        then show ?thesis unfolding b by blast
      next
        case (Returns c1' s1)
        with Some have cr: "consume_record w ev r tc s = Some (Returns c1' s1)" by simp
        have b: "bounded_loop (Suc k) w ev r c tc s = bounded_loop k w ev r c1' (tc + 1) s1"
          using True cr by simp
        have t1': "trace s1 = trace s @ evs1" using t1 Returns by simp
        have cb1: "callback_try_counts evs1 = (if calls_back w ev r then [tc] else [])"
          and nz: "\<not> calls_back w ev r \<longrightarrow> \<not> py_eq_int c1' 0"
          using r1 Returns by auto
        note IH = Suc.IH [of c1' "tc + 1" s1]
        have up: "tc + 1 \<le> n \<Longrightarrow> [tc..<n] = tc # [tc + 1..<n]" for n
          by (simp add: upt_rec)
        have more: "n = tc + Suc k \<and> py_eq_int c' 0 \<and>
            (\<exists>evs. trace s' = trace s @ evs \<and> attempt_try_counts evs = [tc..<n] \<and>
               callback_try_counts evs = (if calls_back w ev r then [tc..<n] else []))"
          if m: "bounded_loop k w ev r c1' (tc + 1) s1 = More c' n s'" for c' n s'
        proof -
          from IH m obtain evs where n: "n = tc + 1 + k" and z: "py_eq_int c' 0"
            and e: "trace s' = trace s1 @ evs" "attempt_try_counts evs = [tc + 1..<n]"
              "callback_try_counts evs = (if calls_back w ev r then [tc + 1..<n] else [])"
            by blast
          have "trace s' = trace s @ (evs1 @ evs)" using t1' e(1) by simp
          moreover have "attempt_try_counts (evs1 @ evs) = [tc..<n]"
            using a1 e(2) up [of n] n by simp
          moreover have "callback_try_counts (evs1 @ evs) =
              (if calls_back w ev r then [tc..<n] else [])"
            using cb1 e(3) up [of n] n by simp
          ultimately show ?thesis using n z by (intro conjI exI [of _ "evs1 @ evs"]) simp_all
        qed
        have ended: "tc < n \<and> n \<le> tc + Suc k \<and>
            (\<exists>evs. trace s' = trace s @ evs \<and> attempt_try_counts evs = [tc..<n] \<and>
               callback_try_counts evs = (if calls_back w ev r then [tc..<n] else []))"
          if m: "bounded_loop k w ev r c1' (tc + 1) s1 = Ended c' n s'" for c' n s'
        proof -
          from IH m obtain evs where n: "tc + 1 \<le> n" "n \<le> tc + 1 + k"
            and e: "trace s' = trace s1 @ evs" "attempt_try_counts evs = [tc + 1..<n]"
              "callback_try_counts evs = (if calls_back w ev r then [tc + 1..<n] else [])"
            by blast
          have "trace s' = trace s @ (evs1 @ evs)" using t1' e(1) by simp
          moreover have "attempt_try_counts (evs1 @ evs) = [tc..<n]"
            using a1 e(2) up [of n] n by simp
          moreover have "callback_try_counts (evs1 @ evs) =
              (if calls_back w ev r then [tc..<n] else [])"
            using cb1 e(3) up [of n] n by simp
          ultimately show ?thesis using n by (intro conjI exI [of _ "evs1 @ evs"]) simp_all
        qed
        have threw: "\<exists>n evs. tc < n \<and> n \<le> tc + Suc k \<and> trace s' = trace s @ evs \<and>
            attempt_try_counts evs = [tc..<n] \<and>
            (callback_try_counts evs = [tc..<n] \<or> callback_try_counts evs = [tc..<n - 1])"
          if m: "bounded_loop k w ev r c1' (tc + 1) s1 = Threw e s'" for e s'
        proof -
          have z: "py_eq_int c1' 0"
            using m by (cases k) (auto split: if_splits)
          with nz have cb: "calls_back w ev r" by blast
          from IH m obtain n evs where n: "tc + 1 < n" "n \<le> tc + 1 + k"
            and e: "trace s' = trace s1 @ evs" "attempt_try_counts evs = [tc + 1..<n]"
              "callback_try_counts evs = [tc + 1..<n] \<or>
               callback_try_counts evs = [tc + 1..<n - 1]"
            by blast
          have "trace s' = trace s @ (evs1 @ evs)" using t1' e(1) by simp
          moreover have "attempt_try_counts (evs1 @ evs) = [tc..<n]"
            using a1 e(2) up [of n] n by simp
          moreover have "callback_try_counts (evs1 @ evs) = [tc..<n] \<or>
              callback_try_counts (evs1 @ evs) = [tc..<n - 1]"
            using cb1 cb e(3) up [of n] up [of "n - 1"] n by auto
          ultimately show ?thesis using n
            by (intro exI [of _ n] exI [of _ "evs1 @ evs"]) simp
        qed
        have A: "\<forall>c' n s'. bounded_loop k w ev r c1' (tc + 1) s1 = More c' n s' \<longrightarrow>
            n = tc + Suc k \<and> py_eq_int c' 0 \<and>
            (\<exists>evs. trace s' = trace s @ evs \<and> attempt_try_counts evs = [tc..<n] \<and>
               callback_try_counts evs = (if calls_back w ev r then [tc..<n] else []))"
          using more by blast
        have B: "\<forall>c' n s'. bounded_loop k w ev r c1' (tc + 1) s1 = Ended c' n s' \<longrightarrow>
            tc \<le> n \<and> n \<le> tc + Suc k \<and> (py_eq_int c 0 \<longrightarrow> tc < n) \<and>
            (\<exists>evs. trace s' = trace s @ evs \<and> attempt_try_counts evs = [tc..<n] \<and>
               callback_try_counts evs = (if calls_back w ev r then [tc..<n] else []))"
        proof (intro allI impI)
          fix c' n s'
          assume "bounded_loop k w ev r c1' (tc + 1) s1 = Ended c' n s'"
          from ended [OF this] show "tc \<le> n \<and> n \<le> tc + Suc k \<and> (py_eq_int c 0 \<longrightarrow> tc < n) \<and>
            (\<exists>evs. trace s' = trace s @ evs \<and> attempt_try_counts evs = [tc..<n] \<and>
               callback_try_counts evs = (if calls_back w ev r then [tc..<n] else []))"
            by simp
        qed
        have C: "\<forall>e s'. bounded_loop k w ev r c1' (tc + 1) s1 = Threw e s' \<longrightarrow>
            (\<exists>n evs. tc < n \<and> n \<le> tc + Suc k \<and> trace s' = trace s @ evs \<and>
               attempt_try_counts evs = [tc..<n] \<and>
               (callback_try_counts evs = [tc..<n] \<or> callback_try_counts evs = [tc..<n - 1]))"
          using threw by blast
        show ?thesis unfolding b using A B C by (intro conjI)
      qed
    qed
  qed
qed

text \<open>
  Claim C10. The loop of a record is entered with \<^verbatim>\<open>commit_control = 0\<close> and
  \<^verbatim>\<open>try_count = 0\<close>. Look at it after any number \<open>k\<close> of rounds, whether it ever ends or
  not.

  If it is still going, it has made \<open>k\<close> tries, numbered \<open>0, \<dots>, k - 1\<close> in this
  order, the callback was called once in each with the same number when the tries reach
  it, \<^verbatim>\<open>try_count\<close> is \<open>k\<close>, and the next thing it does is try \<open>k + 1\<close>, the call of
  \<^verbatim>\<open>_consume_record\<close> with \<^verbatim>\<open>try_count = k\<close>; for \<open>k = 0\<close> this is the first try of the
  delivery, with \<^verbatim>\<open>try_count = 0\<close>.

  If it has ended with \<^verbatim>\<open>try_count = n\<close>, it has made \<open>n \<ge> 1\<close> tries, numbered and
  called back in the same way, and this is the result of the loop of \<^verbatim>\<open>start\<close>. If a
  try raised, that is the result of the loop of \<^verbatim>\<open>start\<close>, the tries made are numbered
  \<open>0, \<dots>, n - 1\<close>, and so are the calls of the callback, which the last try may not
  have reached. Every result of the loop of \<^verbatim>\<open>start\<close> is reached after some number of
  rounds.
\<close>

theorem try_count_of_kth_attempt:
  "(\<forall>c n s'. bounded_loop k w ev r (PInt 0) 0 s = More c n s' \<longrightarrow>
      n = k \<and>
      attempt_try_counts (new_events s s') = [0..<k] \<and>
      callback_try_counts (new_events s s') = (if calls_back w ev r then [0..<k] else []) \<and>
      bounded_loop (Suc k) w ev r (PInt 0) 0 s =
        (case consume_record w ev r k s' of
           None \<Rightarrow> Stuck
         | Some (Raises e s'') \<Rightarrow> Threw e s''
         | Some (Returns c' s'') \<Rightarrow> bounded_loop 0 w ev r c' (k + 1) s'')) \<and>
   (\<forall>c n s'. bounded_loop k w ev r (PInt 0) 0 s = Ended c n s' \<longrightarrow>
      0 < n \<and> n \<le> k \<and>
      attempt_loop w ev r (PInt 0) 0 s = Some (Returns (c, n) s') \<and>
      attempt_try_counts (new_events s s') = [0..<n] \<and>
      callback_try_counts (new_events s s') = (if calls_back w ev r then [0..<n] else [])) \<and>
   (\<forall>e s'. bounded_loop k w ev r (PInt 0) 0 s = Threw e s' \<longrightarrow>
      attempt_loop w ev r (PInt 0) 0 s = Some (Raises e s') \<and>
      (\<exists>n. 0 < n \<and> n \<le> k \<and>
         attempt_try_counts (new_events s s') = [0..<n] \<and>
         (callback_try_counts (new_events s s') = [0..<n] \<or>
          callback_try_counts (new_events s s') = [0..<n - 1]))) \<and>
   (bounded_loop k w ev r (PInt 0) 0 s = Stuck \<longrightarrow>
      attempt_loop w ev r (PInt 0) 0 s = None) \<and>
   (\<forall>out. attempt_loop w ev r (PInt 0) 0 s = Some out \<longrightarrow>
      (\<exists>k'. bounded_loop k' w ev r (PInt 0) 0 s = as_result out)) \<and>
   (\<forall>c n s'. attempt_loop w ev r (PInt 0) 0 s = Some (Returns (c, n) s') \<longrightarrow>
      0 < n \<and>
      attempt_try_counts (new_events s s') = [0..<n] \<and>
      callback_try_counts (new_events s s') = (if calls_back w ev r then [0..<n] else []))"
proof -
  note T = bounded_loop_tries [of k w ev r "PInt 0" 0 s]
  note S = bounded_loop_sound [of k w ev r "PInt 0" 0 s]
  have more: "n = k \<and>
      attempt_try_counts (new_events s s') = [0..<k] \<and>
      callback_try_counts (new_events s s') = (if calls_back w ev r then [0..<k] else []) \<and>
      bounded_loop (Suc k) w ev r (PInt 0) 0 s =
        (case consume_record w ev r k s' of
           None \<Rightarrow> Stuck
         | Some (Raises e s'') \<Rightarrow> Threw e s''
         | Some (Returns c' s'') \<Rightarrow> bounded_loop 0 w ev r c' (k + 1) s'')"
    if m: "bounded_loop k w ev r (PInt 0) 0 s = More c n s'" for c n s'
  proof -
    from T m obtain evs where n: "n = k" and z: "py_eq_int c 0"
      and e: "trace s' = trace s @ evs" "attempt_try_counts evs = [0..<n]"
        "callback_try_counts evs = (if calls_back w ev r then [0..<n] else [])"
      by auto
    have ne: "new_events s s' = evs" using e(1) by simp
    have "bounded_loop (k + 1) w ev r (PInt 0) 0 s = bounded_loop 1 w ev r c n s'"
      using m by (rule bounded_loop_more)
    then have "bounded_loop (Suc k) w ev r (PInt 0) 0 s =
        (case consume_record w ev r k s' of
           None \<Rightarrow> Stuck
         | Some (Raises e s'') \<Rightarrow> Threw e s''
         | Some (Returns c' s'') \<Rightarrow> bounded_loop 0 w ev r c' (k + 1) s'')"
      using z n by simp
    with n e ne show ?thesis by simp
  qed
  have ended: "0 < n \<and> n \<le> k \<and>
      attempt_loop w ev r (PInt 0) 0 s = Some (Returns (c, n) s') \<and>
      attempt_try_counts (new_events s s') = [0..<n] \<and>
      callback_try_counts (new_events s s') = (if calls_back w ev r then [0..<n] else [])"
    if m: "bounded_loop k w ev r (PInt 0) 0 s = Ended c n s'" for c n s'
  proof -
    from T m obtain evs where n: "0 < n" "n \<le> k"
      and e: "trace s' = trace s @ evs" "attempt_try_counts evs = [0..<n]"
        "callback_try_counts evs = (if calls_back w ev r then [0..<n] else [])"
      by auto
    have ne: "new_events s s' = evs" using e(1) by simp
    from S m have "attempt_loop w ev r (PInt 0) 0 s = Some (Returns (c, n) s')" by blast
    with n e ne show ?thesis by simp
  qed
  have threw: "attempt_loop w ev r (PInt 0) 0 s = Some (Raises e s') \<and>
      (\<exists>n. 0 < n \<and> n \<le> k \<and>
         attempt_try_counts (new_events s s') = [0..<n] \<and>
         (callback_try_counts (new_events s s') = [0..<n] \<or>
          callback_try_counts (new_events s s') = [0..<n - 1]))"
    if m: "bounded_loop k w ev r (PInt 0) 0 s = Threw e s'" for e s'
  proof -
    from T m obtain n evs where n: "0 < n" "n \<le> k"
      and e: "trace s' = trace s @ evs" "attempt_try_counts evs = [0..<n]"
        "callback_try_counts evs = [0..<n] \<or> callback_try_counts evs = [0..<n - 1]"
      by auto
    have ne: "new_events s s' = evs" using e(1) by simp
    from S m have "attempt_loop w ev r (PInt 0) 0 s = Some (Raises e s')" by blast
    with n e ne show ?thesis by auto
  qed
  have stuck: "bounded_loop k w ev r (PInt 0) 0 s = Stuck \<longrightarrow>
      attempt_loop w ev r (PInt 0) 0 s = None"
    using S by blast
  have complete: "\<exists>k'. bounded_loop k' w ev r (PInt 0) 0 s = as_result out"
    if "attempt_loop w ev r (PInt 0) 0 s = Some out" for out
    using that by (rule bounded_loop_complete)
  have returned: "0 < n \<and>
      attempt_try_counts (new_events s s') = [0..<n] \<and>
      callback_try_counts (new_events s s') = (if calls_back w ev r then [0..<n] else [])"
    if l: "attempt_loop w ev r (PInt 0) 0 s = Some (Returns (c, n) s')" for c n s'
  proof -
    from bounded_loop_complete [OF l] obtain k' where
      b: "bounded_loop k' w ev r (PInt 0) 0 s = Ended c n s'" by auto
    from bounded_loop_tries [of k' w ev r "PInt 0" 0 s] b obtain evs where n: "0 < n"
      and e: "trace s' = trace s @ evs" "attempt_try_counts evs = [0..<n]"
        "callback_try_counts evs = (if calls_back w ev r then [0..<n] else [])"
      by auto
    have ne: "new_events s s' = evs" using e(1) by simp
    with n e show ?thesis by simp
  qed
  from more ended threw stuck complete returned show ?thesis by blast
qed

theorem try_count_of_kth_attempt_witness:
  "bounded_loop 2 (answering_worker 5 (PInt 0) (PInt 1)) test_env (record_of ''add'')
     (PInt 0) 0 started =
     More (PInt 0) 2
       \<lparr>trace = [PoolCreated 1,
                 Attempt (record_of ''add'') 0, Executed add_job Inline,
                 CallbackCalled (outcome_args test_env add_job 0 (Inr (PInt 5))),
                 Attempt (record_of ''add'') 1, Executed add_job Inline,
                 CallbackCalled (outcome_args test_env add_job 1 (Inr (PInt 5)))],
        pool = Some 1\<rparr> \<and>
   calls_back (answering_worker 5 (PInt 0) (PInt 1)) test_env (record_of ''add'') \<and>
   attempt_try_counts
     (new_events started
        \<lparr>trace = [PoolCreated 1,
                 Attempt (record_of ''add'') 0, Executed add_job Inline,
                 CallbackCalled (outcome_args test_env add_job 0 (Inr (PInt 5))),
                 Attempt (record_of ''add'') 1, Executed add_job Inline,
                 CallbackCalled (outcome_args test_env add_job 1 (Inr (PInt 5)))],
          pool = Some 1\<rparr>) = [0, 1] \<and>
   callback_try_counts
     (new_events started
        \<lparr>trace = [PoolCreated 1,
                 Attempt (record_of ''add'') 0, Executed add_job Inline,
                 CallbackCalled (outcome_args test_env add_job 0 (Inr (PInt 5))),
                 Attempt (record_of ''add'') 1, Executed add_job Inline,
                 CallbackCalled (outcome_args test_env add_job 1 (Inr (PInt 5)))],
          pool = Some 1\<rparr>) = [0, 1]"
proof -
  let ?w = "answering_worker 5 (PInt 0) (PInt 1)"
  let ?s2 = "\<lparr>trace = [PoolCreated 1,
                 Attempt (record_of ''add'') 0, Executed add_job Inline,
                 CallbackCalled (outcome_args test_env add_job 0 (Inr (PInt 5))),
                 Attempt (record_of ''add'') 1, Executed add_job Inline,
                 CallbackCalled (outcome_args test_env add_job 1 (Inr (PInt 5)))],
          pool = Some 1\<rparr>"
  have two: "(2::nat) = Suc (Suc 0)" by simp
  have b: "bounded_loop 2 ?w test_env (record_of ''add'') (PInt 0) 0 started =
      More (PInt 0) 2 ?s2"
    unfolding two
    by (simp add: consume_record_def run_job_def exec_callback_def
      effective_timeout_def emit_def executions_so_far_def callbacks_so_far_def
      example_defs)
  have cb: "calls_back ?w test_env (record_of ''add'')"
    by (simp add: calls_back_def example_defs)
  have u: "[0..<2] = [0, 1::nat]" by (simp add: upt_rec)
  from try_count_of_kth_attempt [of 2 ?w test_env "record_of ''add''" started] b cb u
  have "attempt_try_counts (new_events started ?s2) = [0, 1]"
    and "callback_try_counts (new_events started ?s2) = [0, 1]"
    by simp_all
  with b cb show ?thesis by blast
qed

end
